theory Spec2Isabelle
  imports
    Main
    "HOL-Library.Word"
    "HOL-Library.Char_ord"
    "HOL-Library.List_Lexorder"
    "HOL-Library.Multiset"
    "HOL-Library.Monad_Syntax"
    "HOL-Library.Signed_Division"
begin

section \<open>Value coercion\<close>

text \<open>
  Go's \<open>int64\<close> and \<open>uint64\<close> are both \<open>64 word\<close>: the conversion \<open>int64(u64)\<close>
  keeps the bits, unary minus wraps, \<open>uint\<close> reads a word as unsigned and \<open>sint\<close> as
  two's complement.

  \<open>tryParseUint64\<close> is not part of \<open>pipe_sort.go\<close>: \<open>tryParseInt64\<close> takes it as its
  first argument.
\<close>

definition tryParseInt64 :: "(string \<Rightarrow> 64 word option) \<Rightarrow> string \<Rightarrow> 64 word option" where
  "tryParseInt64 tryParseUint64 s =
     (if length s = 0 then None
      else
        let isMinus = (s ! 0 = CHR ''-'');
            s1 = (if isMinus then drop 1 s else s)
        in (case tryParseUint64 s1 of
              None \<Rightarrow> None
            | Some u64 \<Rightarrow>
                if \<not> isMinus then
                  (if u64 > 0x7FFFFFFFFFFFFFFF then None else Some u64)
                else if u64 > 0x8000000000000000 then None
                else Some (- u64)))"

text \<open>
  Modelled from the spec: \<open>tryParseUint64\<close>, which \<open>tryParseInt64\<close> calls and which is
  defined outside \<open>pipe_sort.go\<close>. The spec (4.A) only says that the remainder is parsed
  "as unsigned": a non-empty string of decimal digits whose value fits 64 bits.
\<close>

definition isDigit :: "char \<Rightarrow> bool" where
  "isDigit c = (of_char (CHR ''0'') \<le> (of_char c :: nat) \<and> (of_char c :: nat) \<le> of_char (CHR ''9''))"

definition decimalValue :: "string \<Rightarrow> nat" where
  "decimalValue s = foldl (\<lambda>n c. 10 * n + (of_char c - of_char (CHR ''0''))) 0 s"

definition tryParseUint64_decimal :: "string \<Rightarrow> 64 word option" where
  "tryParseUint64_decimal s =
     (if s = [] \<or> \<not> list_all isDigit s then None
      else if decimalValue s < 2 ^ 64 then Some (of_nat (decimalValue s))
      else None)"

section \<open>Data model\<close>

text \<open>
  \<open>float64\<close>: the comparator only asks whether a value is NaN and compares non-NaN
  values with \<open>==\<close> and \<open><\<close>. Non-NaN values (with the two zeros identified, as
  \<open>==\<close> does) are linearly ordered, so a value is either \<open>NaN\<close> or a point of a
  linear order \<open>'f\<close>.
\<close>

datatype 'f float64 = NaN | Float 'f

definition isNaN :: "'f float64 \<Rightarrow> bool" where
  "isNaN f = (f = NaN)"

text \<open>\<open>==\<close> and \<open><\<close> on \<open>float64\<close>: both are false when an operand is NaN.\<close>

fun f64_eq :: "'f float64 \<Rightarrow> 'f float64 \<Rightarrow> bool" where
  "f64_eq (Float x) (Float y) = (x = y)"
| "f64_eq _ _ = False"

fun f64_less :: "('f::linorder) float64 \<Rightarrow> 'f float64 \<Rightarrow> bool" where
  "f64_less (Float x) (Float y) = (x < y)"
| "f64_less _ _ = False"

type_synonym int64 = "64 word"

record bySortField =
  bf_name :: string
  bf_isDesc :: bool

record pipeSort =
  byFields :: "bySortField list"
  isDesc :: bool

text \<open>
  Modelled from the spec: \<open>blockResultColumn\<close> and \<open>blockResult\<close>, whose declarations
  are outside \<open>pipe_sort.go\<close>. The spec (3) gives a column a name, the flags
  \<open>isTime\<close> and \<open>isConst\<close>, an \<open>encodedValues\<close> array and an accessor for the
  value at a row (\<open>valueAt\<close>, read by \<open>getValueAtRow\<close>); a block has a timestamp
  vector and its columns; \<open>sizeBytes\<close> is what \<open>br.sizeBytes()\<close> returns.
\<close>

record blockResultColumn =
  name :: string
  isTime :: bool
  isConst :: bool
  encodedValues :: "string list"
  valueAt :: "nat \<Rightarrow> string"

record blockResult =
  timestamps :: "int64 list"
  columns :: "blockResultColumn list"
  sizeBytes :: int

definition getValueAtRow :: "blockResultColumn \<Rightarrow> blockResult \<Rightarrow> nat \<Rightarrow> string" where
  "getValueAtRow cl b row = valueAt cl row"

definition getValues :: "blockResultColumn \<Rightarrow> blockResult \<Rightarrow> string list" where
  "getValues cl b = map (valueAt cl) [0..<length (timestamps b)]"

text \<open>
  Modelled from the spec: \<open>getColumnByName\<close> "resolves the column by name" (4.C step 3).
  A name that no column of the block carries resolves to a constant column holding the
  empty string.
\<close>

definition getColumnByName :: "blockResult \<Rightarrow> string \<Rightarrow> blockResultColumn" where
  "getColumnByName b columnName =
     (case find (\<lambda>cl. name cl = columnName) (columns b) of
        Some cl \<Rightarrow> cl
      | None \<Rightarrow> \<lparr>name = columnName, isTime = False, isConst = True,
                  encodedValues = [[]], valueAt = (\<lambda>_. [])\<rparr>)"

record 'f sortBlockByColumn =
  col :: blockResultColumn
  i64Values :: "int64 list"
  f64Values :: "'f float64 list"

record 'f sortBlock =
  br :: blockResult
  byColumns :: "'f sortBlockByColumn list"
  otherColumns :: "blockResultColumn list"

record sortRowRef =
  blockIdx :: nat
  rowIdx :: nat

record 'f pipeSortProcessorShard =
  ps :: pipeSort
  blocks :: "'f sortBlock list"
  rowRefs :: "sortRowRef list"
  rowRefNext :: nat
  stateSizeBudget :: int

text \<open>
  Indexing a slice out of range panics in Go: \<open>at xs i\<close> is \<open>None\<close> there, and
  \<open>None\<close> stands for the panic in every function below that indexes.
\<close>

definition at :: "'a list \<Rightarrow> nat \<Rightarrow> 'a option" where
  "at xs i = (if i < length xs then Some (xs ! i) else None)"

definition getI64ValueAtRow :: "'f sortBlockByColumn \<Rightarrow> nat \<Rightarrow> int64 option" where
  "getI64ValueAtRow bc row =
     (if isConst (col bc) then at (i64Values bc) 0 else at (i64Values bc) row)"

definition getF64ValueAtRow :: "'f sortBlockByColumn \<Rightarrow> nat \<Rightarrow> 'f float64 option" where
  "getF64ValueAtRow bc row =
     (if isConst (col bc) then at (f64Values bc) 0 else at (f64Values bc) row)"

section \<open>The row comparator\<close>

text \<open>
  One round of the loop of \<open>sortBlockLess\<close> either goes on to the next key
  (\<open>continue\<close>) or returns.
\<close>

datatype keyOutcome = NextKey | Return bool

text \<open>
  The direction of key \<open>idx\<close>: \<open>len(byFields) > 0 && byFields[idx].isDesc\<close>, flipped
  when the pipe itself is \<open>desc\<close>.
\<close>

definition keyIsDesc :: "pipeSort \<Rightarrow> nat \<Rightarrow> bool option" where
  "keyIsDesc p idx = do {
     d0 \<leftarrow> (if length (byFields p) > 0
             then map_option bf_isDesc (at (byFields p) idx) else Some False);
     Some (if isDesc p then \<not> d0 else d0)
   }"

definition sortBlockLess_key ::
  "pipeSort \<Rightarrow> ('f::linorder) sortBlock \<Rightarrow> sortRowRef \<Rightarrow> 'f sortBlock \<Rightarrow> sortRowRef \<Rightarrow> nat
     \<Rightarrow> keyOutcome option" where
  "sortBlockLess_key p bA rrA bB rrB idx = do {
     cA \<leftarrow> at (byColumns bA) idx;
     cB \<leftarrow> at (byColumns bB) idx;
     desc \<leftarrow> keyIsDesc p idx;
     if isConst (col cA) \<and> isConst (col cB) then do {
       ccA \<leftarrow> at (encodedValues (col cA)) 0;
       ccB \<leftarrow> at (encodedValues (col cB)) 0;
       Some (if ccA = ccB then NextKey else Return (ccA < ccB))
     }
     else if isTime (col cA) \<and> isTime (col cB) then do {
       tA \<leftarrow> at (timestamps (br bA)) (rowIdx rrA);
       tB \<leftarrow> at (timestamps (br bB)) (rowIdx rrB);
       Some (if tA = tB then NextKey
             else if desc then Return (tB <s tA) else Return (tA <s tB))
     }
     else if isTime (col cA) then Some (Return True)
     else if isTime (col cB) then Some (Return False)
     else do {
       uA \<leftarrow> getI64ValueAtRow cA (rowIdx rrA);
       uB \<leftarrow> getI64ValueAtRow cB (rowIdx rrB);
       if uA \<noteq> 0 \<and> uB \<noteq> 0 then
         Some (if uA = uB then NextKey
               else if desc then Return (uB <s uA) else Return (uA <s uB))
       else do {
         fA \<leftarrow> getF64ValueAtRow cA (rowIdx rrA);
         fB \<leftarrow> getF64ValueAtRow cB (rowIdx rrB);
         if \<not> isNaN fA \<and> \<not> isNaN fB then
           Some (if f64_eq fA fB then NextKey
                 else if desc then Return (f64_less fB fA) else Return (f64_less fA fB))
         else
           let sA = getValueAtRow (col cA) (br bA) (rowIdx rrA);
               sB = getValueAtRow (col cB) (br bB) (rowIdx rrB)
           in Some (if sA = sB then NextKey
                    else if desc then Return (sB < sA) else Return (sA < sB))
       }
     }
   }"

fun sortBlockLess_loop ::
  "pipeSort \<Rightarrow> ('f::linorder) sortBlock \<Rightarrow> sortRowRef \<Rightarrow> 'f sortBlock \<Rightarrow> sortRowRef \<Rightarrow> nat list
     \<Rightarrow> bool option" where
  "sortBlockLess_loop p bA rrA bB rrB [] = Some False"
| "sortBlockLess_loop p bA rrA bB rrB (idx # rest) =
     (case sortBlockLess_key p bA rrA bB rrB idx of
        None \<Rightarrow> None
      | Some NextKey \<Rightarrow> sortBlockLess_loop p bA rrA bB rrB rest
      | Some (Return r) \<Rightarrow> Some r)"

text \<open>
  \<open>sortBlockLess\<close> once the two row references have been read: \<open>shard.Less\<close> and the
  heap compare the rows that currently stand at two positions.
\<close>

definition sortBlockLess_refs ::
  "('f::linorder) pipeSortProcessorShard \<Rightarrow> sortRowRef \<Rightarrow> 'f pipeSortProcessorShard \<Rightarrow> sortRowRef \<Rightarrow> bool option" where
  "sortBlockLess_refs shardA rrA shardB rrB = do {
     bA \<leftarrow> at (blocks shardA) (blockIdx rrA);
     bB \<leftarrow> at (blocks shardB) (blockIdx rrB);
     sortBlockLess_loop (ps shardA) bA rrA bB rrB [0..<length (byColumns bA)]
   }"

definition sortBlockLess ::
  "('f::linorder) pipeSortProcessorShard \<Rightarrow> nat \<Rightarrow> 'f pipeSortProcessorShard \<Rightarrow> nat \<Rightarrow> bool option" where
  "sortBlockLess shardA rowIdxA shardB rowIdxB = do {
     rrA \<leftarrow> at (rowRefs shardA) rowIdxA;
     rrB \<leftarrow> at (rowRefs shardB) rowIdxB;
     sortBlockLess_refs shardA rrA shardB rrB
   }"

section \<open>Shard ingest\<close>

text \<open>
  What \<open>pipe_sort.go\<close> uses and does not define is gathered in one record, passed to
  the functions that need it: the parsers of cells, Go's \<open>strconv.AppendQuote\<close> and
  \<open>sort.Sort\<close>, the token quoting of the printer, the budget chunk, the result of
  \<open>int64(float64(memory.Allowed()) * 0.2)\<close>, and the values of \<open>unsafe.Sizeof\<close>.
  \<open>sort.Sort\<close> sorts the row references of a shard with \<open>shard.Less\<close>; \<open>None\<close> is a panic
  of the comparator.
\<close>

record 'f externals =
  tryParseUint64 :: "string \<Rightarrow> 64 word option"
  tryParseIPv4 :: "string \<Rightarrow> 32 word \<times> bool"
  tryParseFloat64 :: "string \<Rightarrow> 'f float64 \<times> bool"
  strconvQuote :: "string \<Rightarrow> string"
  quoteTokenIfNeeded :: "string \<Rightarrow> string"
  sortSort :: "(sortRowRef \<Rightarrow> sortRowRef \<Rightarrow> bool option) \<Rightarrow> sortRowRef list \<Rightarrow> sortRowRef list option"
  stateSizeBudgetChunk :: int
  allowedStateSize :: int
  sizeofSortBlockByColumn :: int
  sizeofBlockResultColumn :: int
  sizeofColumnPointer :: int
  sizeofSortBlock :: int
  sizeofSortRowRef :: int
  sizeofInt64 :: int
  sizeofFloat64 :: int

definition marshalJSONKeyValue :: "'f externals \<Rightarrow> string \<Rightarrow> string \<Rightarrow> string \<Rightarrow> string" where
  "marshalJSONKeyValue ext dst k v = dst @ strconvQuote ext k @ '':'' @ strconvQuote ext v"

text \<open>
  \<open>createInt64Values\<close> and \<open>createFloat64Values\<close> return the array and charge it to the
  budget of the shard.
\<close>

definition createInt64Values ::
  "'f externals \<Rightarrow> 'f pipeSortProcessorShard \<Rightarrow> string list \<Rightarrow> int64 list \<times> 'f pipeSortProcessorShard" where
  "createInt64Values ext shard vs =
     (let a = map (\<lambda>v. case tryParseInt64 (tryParseUint64 ext) v of
                          Some i64 \<Rightarrow> i64
                        | None \<Rightarrow> ucast (fst (tryParseIPv4 ext v))) vs
      in (a, shard\<lparr>stateSizeBudget := stateSizeBudget shard - int (length a) * sizeofInt64 ext\<rparr>))"

definition createFloat64Values ::
  "'f externals \<Rightarrow> 'f pipeSortProcessorShard \<Rightarrow> string list \<Rightarrow> 'f float64 list \<times> 'f pipeSortProcessorShard" where
  "createFloat64Values ext shard vs =
     (let a = map (\<lambda>v. case tryParseFloat64 ext v of (f, ok) \<Rightarrow> if \<not> ok then NaN else f) vs
      in (a, shard\<lparr>stateSizeBudget := stateSizeBudget shard - int (length a) * sizeofFloat64 ext\<rparr>))"

text \<open>The loop over \<open>byFields\<close> of \<open>writeBlock\<close>: one \<open>sortBlockByColumn\<close> per sort key.\<close>

fun collectByColumns ::
  "'f externals \<Rightarrow> blockResult \<Rightarrow> bySortField list \<Rightarrow> 'f pipeSortProcessorShard
     \<Rightarrow> 'f sortBlockByColumn list \<times> 'f pipeSortProcessorShard" where
  "collectByColumns ext b [] shard = ([], shard)"
| "collectByColumns ext b (bf # bfs) shard =
     (let cl = getColumnByName b (bf_name bf) in
      if isTime cl then
        (case collectByColumns ext b bfs shard of
           (bcs, shard1) \<Rightarrow> (\<lparr>col = cl, i64Values = [], f64Values = []\<rparr> # bcs, shard1))
      else
        (let vs = (if isConst cl then encodedValues cl else getValues cl b) in
         case createInt64Values ext shard vs of (i64s, shard1) \<Rightarrow>
         case createFloat64Values ext shard1 vs of (f64s, shard2) \<Rightarrow>
         case collectByColumns ext b bfs shard2 of (bcs, shard3) \<Rightarrow>
           (\<lparr>col = cl, i64Values = i64s, f64Values = f64s\<rparr> # bcs, shard3)))"

text \<open>
  Sorting by all the columns: the cell of row \<open>i\<close> of the single synthesized column is the
  concatenation of \<open>marshalJSONKeyValue(name, value)\<close> and a comma over all the columns.
\<close>

definition allColumnsValue :: "'f externals \<Rightarrow> blockResult \<Rightarrow> nat \<Rightarrow> string" where
  "allColumnsValue ext b i =
     foldl (\<lambda>bb cl. marshalJSONKeyValue ext bb (name cl) (getValueAtRow cl b i) @ '','') [] (columns b)"

definition shard_writeBlock ::
  "'f externals \<Rightarrow> 'f pipeSortProcessorShard \<Rightarrow> blockResult \<Rightarrow> 'f pipeSortProcessorShard" where
  "shard_writeBlock ext shard b =
     (let cs = columns b;
          n = length (timestamps b);
          bfs = byFields (ps shard);
          shard1 =
            (if length bfs = 0 then
               (let rcValues = map (allColumnsValue ext b) [0..<n];
                    bcs = [\<lparr>col = \<lparr>name = [], isTime = False, isConst = False,
                                   encodedValues = rcValues, valueAt = (\<lambda>i. rcValues ! i)\<rparr>,
                            i64Values = replicate n 0, f64Values = replicate n NaN\<rparr>]
                in shard\<lparr>stateSizeBudget := stateSizeBudget shard
                            - (int (length (concat rcValues))
                               + (sizeofSortBlockByColumn ext + sizeofBlockResultColumn ext)),
                         blocks := blocks shard @ [\<lparr>br = b, byColumns = bcs, otherColumns = cs\<rparr>]\<rparr>)
             else
               (case collectByColumns ext b bfs shard of (bcs, sh1) \<Rightarrow>
                  let sh2 = sh1\<lparr>stateSizeBudget := stateSizeBudget sh1
                                  - int (length bcs) * sizeofSortBlockByColumn ext\<rparr>;
                      others = filter (\<lambda>cl. \<not> list_ex (\<lambda>bf. bf_name bf = name cl) bfs) cs
                  in sh2\<lparr>stateSizeBudget := stateSizeBudget sh2
                             - int (length others) * sizeofColumnPointer ext,
                          blocks := blocks sh2 @ [\<lparr>br = b, byColumns = bcs, otherColumns = others\<rparr>]\<rparr>));
          shard2 = shard1\<lparr>stateSizeBudget := stateSizeBudget shard1 - sizeBytes b - sizeofSortBlock ext\<rparr>;
          blockIdx0 = length (blocks shard2) - 1;
          refs = map (\<lambda>i. \<lparr>blockIdx = blockIdx0, rowIdx = i\<rparr>) [0..<n]
      in shard2\<lparr>rowRefs := rowRefs shard2 @ refs,
                 stateSizeBudget := stateSizeBudget shard2 - int (length refs) * sizeofSortRowRef ext\<rparr>)"

section \<open>The processor: budget and ingest\<close>

text \<open>
  \<open>cancelCalls\<close> counts the calls of \<open>psp.cancel()\<close>. The budgets are Go's \<open>int\<close> and
  \<open>int64\<close>, modelled by \<open>int\<close>: they stay far from the 64-bit bounds.
\<close>

record 'f pipeSortProcessor =
  psp_ps :: pipeSort
  shards :: "'f pipeSortProcessorShard list"
  maxStateSize :: int
  psp_stateSizeBudget :: int
  cancelCalls :: nat

definition newPipeProcessor :: "'f externals \<Rightarrow> pipeSort \<Rightarrow> nat \<Rightarrow> 'f pipeSortProcessor" where
  "newPipeProcessor ext p workersCount =
     (let m = allowedStateSize ext - int workersCount * stateSizeBudgetChunk ext in
      \<lparr>psp_ps = p,
       shards = replicate workersCount
         \<lparr>ps = p, blocks = [], rowRefs = [], rowRefNext = 0,
          stateSizeBudget = stateSizeBudgetChunk ext\<rparr>,
       maxStateSize = m,
       psp_stateSizeBudget = m,
       cancelCalls = 0\<rparr>)"

text \<open>
  The loop \<open>for shard.stateSizeBudget < 0\<close> of \<open>pipeSortProcessor.writeBlock\<close>. It returns
  whether the block may be ingested. With a chunk that is not positive the loop may run
  forever: \<open>None\<close> is the call that does not return.
\<close>

partial_function (option) stealBudget ::
  "'f externals \<Rightarrow> nat \<Rightarrow> 'f pipeSortProcessor \<Rightarrow> (bool \<times> 'f pipeSortProcessor) option" where
  "stealBudget ext workerID psp =
     (case at (shards psp) workerID of
        None \<Rightarrow> None
      | Some shard \<Rightarrow>
          if stateSizeBudget shard < 0 then
            (let remaining = psp_stateSizeBudget psp - stateSizeBudgetChunk ext;
                 psp1 = psp\<lparr>psp_stateSizeBudget := remaining\<rparr>
             in if remaining < 0 then
                  Some (False,
                    if remaining + stateSizeBudgetChunk ext \<ge> 0
                    then psp1\<lparr>cancelCalls := cancelCalls psp1 + 1\<rparr> else psp1)
                else
                  stealBudget ext workerID
                    (psp1\<lparr>shards := (shards psp1)[workerID :=
                       shard\<lparr>stateSizeBudget := stateSizeBudget shard + stateSizeBudgetChunk ext\<rparr>]\<rparr>))
          else Some (True, psp))"

definition psp_writeBlock ::
  "'f externals \<Rightarrow> 'f pipeSortProcessor \<Rightarrow> nat \<Rightarrow> blockResult \<Rightarrow> 'f pipeSortProcessor option" where
  "psp_writeBlock ext psp workerID b =
     (if length (timestamps b) = 0 then Some psp
      else
        (case stealBudget ext workerID psp of
           None \<Rightarrow> None
         | Some (ok, psp1) \<Rightarrow>
             if \<not> ok then Some psp1
             else
               (case at (shards psp1) workerID of
                  None \<Rightarrow> None
                | Some shard \<Rightarrow>
                    Some (psp1\<lparr>shards := (shards psp1)[workerID := shard_writeBlock ext shard b]\<rparr>))))"

section \<open>The output batcher\<close>

text \<open>
  \<open>written\<close> is the sequence of calls \<open>ppBase.writeBlock(workerID, br)\<close> made so far: the
  worker id and the columns that \<open>br.setResultColumns(rcs)\<close> put into the block.
\<close>

record resultColumn =
  rc_name :: string
  rc_values :: "string list"

record pipeSortWriteContext =
  rcs :: "resultColumn list"
  valuesLen :: int
  written :: "(nat \<times> resultColumn list) list"

definition resetKeepName :: "resultColumn \<Rightarrow> resultColumn" where
  "resetKeepName rc = rc\<lparr>rc_values := []\<rparr>"

definition addValue :: "resultColumn \<Rightarrow> string \<Rightarrow> resultColumn" where
  "addValue rc v = rc\<lparr>rc_values := rc_values rc @ [v]\<rparr>"

definition wctx_flush :: "pipeSortWriteContext \<Rightarrow> pipeSortWriteContext" where
  "wctx_flush wctx =
     (let w = wctx\<lparr>valuesLen := 0\<rparr> in
      if length (rcs w) = 0 then w
      else w\<lparr>written := written w @ [(0, rcs w)], rcs := map resetKeepName (rcs w)\<rparr>)"

definition areEqualColumns :: "resultColumn list \<Rightarrow> bySortField list \<Rightarrow> blockResultColumn list \<Rightarrow> bool" where
  "areEqualColumns rs bfs others =
     (length rs = length bfs + length others \<and>
      list_all (\<lambda>i. rc_name (rs ! (length bfs + i)) = name (others ! i)) [0..<length others])"

definition wctx_writeRow ::
  "pipeSortWriteContext \<Rightarrow> 'f pipeSortProcessorShard \<Rightarrow> nat \<Rightarrow> pipeSortWriteContext option" where
  "wctx_writeRow wctx shard i = do {
     rr \<leftarrow> at (rowRefs shard) i;
     b \<leftarrow> at (blocks shard) (blockIdx rr);
     let bfs = byFields (ps shard);
     let w1 = (if \<not> areEqualColumns (rcs wctx) bfs (otherColumns b) then
                 (wctx_flush wctx)\<lparr>rcs :=
                    map (\<lambda>bf. \<lparr>rc_name = bf_name bf, rc_values = []\<rparr>) bfs @
                    map (\<lambda>cl. \<lparr>rc_name = name cl, rc_values = []\<rparr>) (otherColumns b)\<rparr>
               else wctx);
     keyCols \<leftarrow> (if length bfs \<le> length (byColumns b)
                  then Some (take (length bfs) (byColumns b)) else None);
     let vs = map (\<lambda>bc. getValueAtRow (col bc) (br b) (rowIdx rr)) keyCols @
              map (\<lambda>cl. getValueAtRow cl (br b) (rowIdx rr)) (otherColumns b);
     let w2 = w1\<lparr>rcs := map (\<lambda>(rc, v). addValue rc v) (zip (rcs w1) vs),
                 valuesLen := valuesLen w1 + int (length (concat vs))\<rparr>;
     Some (if valuesLen w2 \<ge> 1000000 then wctx_flush w2 else w2)
   }"

section \<open>The heap of shards\<close>

text \<open>
  Go's \<open>container/heap\<close> over a slice \<open>sh\<close>, with \<open>lt\<close> for \<open>sh.Less\<close> on the elements
  at two positions: \<open>down\<close> returns the slice and the position it stopped at.
\<close>

definition heap_Swap :: "'a list \<Rightarrow> nat \<Rightarrow> nat \<Rightarrow> 'a list" where
  "heap_Swap sh i j = sh[i := sh ! j, j := sh ! i]"

definition heap_Less :: "('a \<Rightarrow> 'a \<Rightarrow> bool option) \<Rightarrow> 'a list \<Rightarrow> nat \<Rightarrow> nat \<Rightarrow> bool option" where
  "heap_Less lt sh i j = do { a \<leftarrow> at sh i; b \<leftarrow> at sh j; lt a b }"

function heap_down ::
  "('a \<Rightarrow> 'a \<Rightarrow> bool option) \<Rightarrow> 'a list \<Rightarrow> nat \<Rightarrow> nat \<Rightarrow> ('a list \<times> nat) option" where
  "heap_down lt sh i n =
     (let j1 = 2 * i + 1 in
      if j1 \<ge> n then Some (sh, i)
      else
        (case (if j1 + 1 < n then heap_Less lt sh (j1 + 1) j1 else Some False) of
           None \<Rightarrow> None
         | Some r \<Rightarrow>
             (let j = (if r then j1 + 1 else j1) in
              case heap_Less lt sh j i of
                None \<Rightarrow> None
              | Some l \<Rightarrow>
                  if \<not> l then Some (sh, i)
                  else heap_down lt (heap_Swap sh i j) j n)))"
  by pat_completeness auto
termination
  by (relation "measure (\<lambda>(lt, sh, i, n). n - i)") auto

declare heap_down.simps [simp del]

function heap_up :: "('a \<Rightarrow> 'a \<Rightarrow> bool option) \<Rightarrow> 'a list \<Rightarrow> nat \<Rightarrow> 'a list option" where
  "heap_up lt sh j =
     (let i = (j - 1) div 2 in
      if i = j then Some sh
      else
        (case heap_Less lt sh j i of
           None \<Rightarrow> None
         | Some l \<Rightarrow>
             if \<not> l then Some sh
             else heap_up lt (heap_Swap sh i j) i))"
  by pat_completeness auto
termination
  by (relation "measure (\<lambda>(lt, sh, j). j)") auto

declare heap_up.simps [simp del]

fun heap_Init_loop :: "('a \<Rightarrow> 'a \<Rightarrow> bool option) \<Rightarrow> 'a list \<Rightarrow> nat list \<Rightarrow> 'a list option" where
  "heap_Init_loop lt sh [] = Some sh"
| "heap_Init_loop lt sh (i # rest) =
     (case heap_down lt sh i (length sh) of
        None \<Rightarrow> None
      | Some (sh1, _) \<Rightarrow> heap_Init_loop lt sh1 rest)"

definition heap_Init :: "('a \<Rightarrow> 'a \<Rightarrow> bool option) \<Rightarrow> 'a list \<Rightarrow> 'a list option" where
  "heap_Init lt sh = heap_Init_loop lt sh (rev [0..<length sh div 2])"

definition heap_Fix :: "('a \<Rightarrow> 'a \<Rightarrow> bool option) \<Rightarrow> 'a list \<Rightarrow> nat \<Rightarrow> 'a list option" where
  "heap_Fix lt sh i =
     (case heap_down lt sh i (length sh) of
        None \<Rightarrow> None
      | Some (sh1, i1) \<Rightarrow> if \<not> (i1 > i) then heap_up lt sh1 i else Some sh1)"

definition heap_Pop :: "('a \<Rightarrow> 'a \<Rightarrow> bool option) \<Rightarrow> 'a list \<Rightarrow> 'a list option" where
  "heap_Pop lt sh =
     (if length sh = 0 then None
      else
        (let n = length sh - 1 in
         case heap_down lt (heap_Swap sh 0 n) 0 n of
           None \<Rightarrow> None
         | Some (sh1, _) \<Rightarrow> Some (butlast sh1)))"

lemma heap_Swap_length [simp]: "length (heap_Swap sh i j) = length sh"
  by (simp add: heap_Swap_def)

lemma heap_down_length: "heap_down lt sh i n = Some (sh1, i1) \<Longrightarrow> length sh1 = length sh"
proof (induction lt sh i n arbitrary: sh1 i1 rule: heap_down.induct)
  case (1 lt sh i n)
  from "1.prems" have
    "(let j1 = 2 * i + 1 in
      if j1 \<ge> n then Some (sh, i)
      else
        (case (if j1 + 1 < n then heap_Less lt sh (j1 + 1) j1 else Some False) of
           None \<Rightarrow> None
         | Some r \<Rightarrow>
             (let j = (if r then j1 + 1 else j1) in
              case heap_Less lt sh j i of
                None \<Rightarrow> None
              | Some l \<Rightarrow>
                  if \<not> l then Some (sh, i)
                  else heap_down lt (heap_Swap sh i j) j n))) = Some (sh1, i1)"
    by (subst (asm) heap_down.simps)
  then show ?case using "1.IH"
    by (auto simp: Let_def split: if_splits option.splits)
qed

lemma heap_up_length: "heap_up lt sh j = Some sh1 \<Longrightarrow> length sh1 = length sh"
proof (induction lt sh j arbitrary: sh1 rule: heap_up.induct)
  case (1 lt sh j)
  from "1.prems" have
    "(let i = (j - 1) div 2 in
      if i = j then Some sh
      else
        (case heap_Less lt sh j i of
           None \<Rightarrow> None
         | Some l \<Rightarrow>
             if \<not> l then Some sh
             else heap_up lt (heap_Swap sh i j) i)) = Some sh1"
    by (subst (asm) heap_up.simps)
  then show ?case using "1.IH"
    by (auto simp: Let_def split: if_splits option.splits)
qed

lemma heap_Fix_length: "heap_Fix lt sh i = Some sh1 \<Longrightarrow> length sh1 = length sh"
proof -
  assume a: "heap_Fix lt sh i = Some sh1"
  then obtain sh0 i0 where d: "heap_down lt sh i (length sh) = Some (sh0, i0)"
    by (auto simp: heap_Fix_def split: option.splits)
  have l0: "length sh0 = length sh" by (rule heap_down_length[OF d])
  show ?thesis
  proof (cases "i0 > i")
    case True
    then show ?thesis using a d l0 by (simp add: heap_Fix_def)
  next
    case False
    then have "heap_up lt sh0 i = Some sh1" using a d by (simp add: heap_Fix_def)
    then show ?thesis using heap_up_length l0 by fastforce
  qed
qed

lemma heap_Pop_length: "heap_Pop lt sh = Some sh1 \<Longrightarrow> length sh1 = length sh - 1"
proof -
  assume a: "heap_Pop lt sh = Some sh1"
  then have n: "length sh \<noteq> 0" by (auto simp: heap_Pop_def split: if_splits)
  then obtain sh0 i0 where d: "heap_down lt (heap_Swap sh 0 (length sh - 1)) 0 (length sh - 1) = Some (sh0, i0)"
    using a by (auto simp: heap_Pop_def Let_def split: option.splits)
  have l0: "length sh0 = length sh" using heap_down_length[OF d] by simp
  have "sh1 = butlast sh0" using a d n by (simp add: heap_Pop_def Let_def)
  then show ?thesis using l0 by simp
qed

section \<open>Flush: local sorts and the merge\<close>

text \<open>
  The shards reach the heap through pointers: a pointer to \<open>shards[i]\<close> is the index
  \<open>i\<close>, and \<open>shardsLess\<close> is \<open>sh.Less\<close> on two of them.
\<close>

definition shardsLess ::
  "('f::linorder) pipeSortProcessorShard list \<Rightarrow> nat \<Rightarrow> nat \<Rightarrow> bool option" where
  "shardsLess ss a b = do {
     shardA \<leftarrow> at ss a;
     shardB \<leftarrow> at ss b;
     sortBlockLess shardA (rowRefNext shardA) shardB (rowRefNext shardB)
   }"

record 'f mergeState =
  m_shards :: "'f pipeSortProcessorShard list"
  m_sh :: "nat list"
  m_shardNext :: "nat option"
  m_wctx :: pipeSortWriteContext
  m_polls :: nat

text \<open>
  \<open>stopCh k\<close> tells whether the \<open>k\<close>-th \<open>select\<close> on \<open>psp.stopCh\<close> of this flush finds the
  channel closed; \<open>m_polls\<close> counts the selects made so far.
\<close>

definition remainingRows :: "'f pipeSortProcessorShard \<Rightarrow> nat" where
  "remainingRows shard = length (rowRefs shard) - rowRefNext shard"

definition mergeMeasure :: "'f mergeState \<Rightarrow> nat" where
  "mergeMeasure st = length (m_sh st) + sum_list (map remainingRows (m_shards st))"

lemma at_Some: "at xs i = Some x \<Longrightarrow> i < length xs \<and> xs ! i = x"
  by (auto simp: at_def split: if_splits)

lemma sum_list_map_update:
  "i < length xs \<Longrightarrow>
     sum_list (map f (xs[i := y])) + f (xs ! i) = sum_list (map f xs) + (f y :: nat)"
proof (induction xs arbitrary: i)
  case Nil
  then show ?case by simp
next
  case (Cons x xs)
  then show ?case by (cases i) auto
qed

lemma mergeMeasure_pop:
  assumes "at (m_shards st) k = Some shard"
    "m_shards st2 = (m_shards st)[k := shard\<lparr>rowRefNext := rowRefNext shard + 1\<rparr>]"
    "length (m_sh st2) = length (m_sh st) - 1" "length (m_sh st) > 1"
  shows "mergeMeasure st2 < mergeMeasure st"
proof -
  have k: "k < length (m_shards st)" "m_shards st ! k = shard" using at_Some[OF assms(1)] by auto
  have "remainingRows (shard\<lparr>rowRefNext := rowRefNext shard + 1\<rparr>) \<le> remainingRows shard"
    by (simp add: remainingRows_def)
  moreover have "sum_list (map remainingRows ((m_shards st)[k := shard\<lparr>rowRefNext := rowRefNext shard + 1\<rparr>]))
      + remainingRows shard
      = sum_list (map remainingRows (m_shards st)) + remainingRows (shard\<lparr>rowRefNext := rowRefNext shard + 1\<rparr>)"
    using sum_list_map_update[OF k(1), of remainingRows "shard\<lparr>rowRefNext := rowRefNext shard + 1\<rparr>"]
    by (simp only: k(2))
  ultimately have "sum_list (map remainingRows (m_shards st2)) \<le> sum_list (map remainingRows (m_shards st))"
    unfolding assms(2) by linarith
  then show ?thesis using assms(3,4) by (simp add: mergeMeasure_def)
qed

lemma mergeMeasure_step:
  assumes "at (m_shards st) k = Some shard"
    "m_shards st2 = (m_shards st)[k := shard\<lparr>rowRefNext := rowRefNext shard + 1\<rparr>]"
    "length (m_sh st2) = length (m_sh st)"
    "\<not> rowRefNext shard + 1 \<ge> length (rowRefs shard)"
  shows "mergeMeasure st2 < mergeMeasure st"
proof -
  have k: "k < length (m_shards st)" "m_shards st ! k = shard" using at_Some[OF assms(1)] by auto
  have "remainingRows (shard\<lparr>rowRefNext := rowRefNext shard + 1\<rparr>) < remainingRows shard"
    using assms(4) by (simp add: remainingRows_def)
  moreover have "sum_list (map remainingRows ((m_shards st)[k := shard\<lparr>rowRefNext := rowRefNext shard + 1\<rparr>]))
      + remainingRows shard
      = sum_list (map remainingRows (m_shards st)) + remainingRows (shard\<lparr>rowRefNext := rowRefNext shard + 1\<rparr>)"
    using sum_list_map_update[OF k(1), of remainingRows "shard\<lparr>rowRefNext := rowRefNext shard + 1\<rparr>"]
    by (simp only: k(2))
  ultimately have "sum_list (map remainingRows (m_shards st2)) < sum_list (map remainingRows (m_shards st))"
    unfolding assms(2) by linarith
  then show ?thesis using assms(3) by (simp add: mergeMeasure_def)
qed

text \<open>
  One round of the loop \<open>for len(sh) > 1\<close>, up to the point where it goes round again:
  \<open>MergeReturn\<close> is the \<open>return nil\<close> after a closed \<open>stopCh\<close>.
\<close>

datatype 'f mergeStep = MergeReturn "'f mergeState" | MergeNext "'f mergeState"

definition mergeRound :: "(nat \<Rightarrow> bool) \<Rightarrow> ('f::linorder) mergeState \<Rightarrow> 'f mergeStep option" where
  "mergeRound stopCh st =
     (case at (m_shards st) (m_sh st ! 0) of
        None \<Rightarrow> None
      | Some shard \<Rightarrow>
         (case wctx_writeRow (m_wctx st) shard (rowRefNext shard) of
            None \<Rightarrow> None
          | Some w \<Rightarrow>
             (let shard1 = shard\<lparr>rowRefNext := rowRefNext shard + 1\<rparr>;
                  ss = (m_shards st)[m_sh st ! 0 := shard1]
              in
              if rowRefNext shard1 \<ge> length (rowRefs shard1) then
                (case heap_Pop (shardsLess ss) (m_sh st) of
                   None \<Rightarrow> None
                 | Some sh1 \<Rightarrow>
                    (let st2 = st\<lparr>m_shards := ss, m_wctx := w, m_sh := sh1,
                                   m_shardNext := None, m_polls := m_polls st + 1\<rparr>
                     in Some (if stopCh (m_polls st) then MergeReturn st2 else MergeNext st2)))
              else
                (case (case m_shardNext st of
                         Some x \<Rightarrow> Some x
                       | None \<Rightarrow>
                          (if length (m_sh st) > 2 then
                             map_option (\<lambda>l. if l then m_sh st ! 2 else m_sh st ! 1)
                               (shardsLess ss (m_sh st ! 2) (m_sh st ! 1))
                           else Some (m_sh st ! 1))) of
                   None \<Rightarrow> None
                 | Some sn \<Rightarrow>
                    (case shardsLess ss sn (m_sh st ! 0) of
                       None \<Rightarrow> None
                     | Some l \<Rightarrow>
                        if l then
                          (case heap_Fix (shardsLess ss) (m_sh st) 0 of
                             None \<Rightarrow> None
                           | Some sh1 \<Rightarrow>
                              (let st2 = st\<lparr>m_shards := ss, m_wctx := w, m_sh := sh1,
                                             m_shardNext := None, m_polls := m_polls st + 1\<rparr>
                               in Some (if stopCh (m_polls st) then MergeReturn st2 else MergeNext st2)))
                        else
                          Some (MergeNext (st\<lparr>m_shards := ss, m_wctx := w, m_sh := m_sh st,
                                   m_shardNext := Some sn, m_polls := m_polls st\<rparr>)))))))"

lemma mergeRound_measure:
  assumes "mergeRound stopCh st = Some (MergeNext st2)" "length (m_sh st) > 1"
  shows "mergeMeasure st2 < mergeMeasure st"
proof -
  obtain shard where sh: "at (m_shards st) (m_sh st ! 0) = Some shard"
    using assms(1) by (auto simp: mergeRound_def split: option.splits)
  obtain w where w: "wctx_writeRow (m_wctx st) shard (rowRefNext shard) = Some w"
    using assms(1) sh by (auto simp: mergeRound_def split: option.splits)
  show ?thesis
  proof (cases "rowRefNext shard + 1 \<ge> length (rowRefs shard)")
    case True
    then obtain sh1 where p: "heap_Pop (shardsLess ((m_shards st)[m_sh st ! 0 := shard\<lparr>rowRefNext := rowRefNext shard + 1\<rparr>])) (m_sh st) = Some sh1"
      using assms(1) sh w by (auto simp: mergeRound_def Let_def split: option.splits)
    have st2: "m_shards st2 = (m_shards st)[m_sh st ! 0 := shard\<lparr>rowRefNext := rowRefNext shard + 1\<rparr>]"
      "m_sh st2 = sh1"
      using assms(1) sh w True p by (auto simp: mergeRound_def Let_def split: if_splits)
    have "length (m_sh st2) = length (m_sh st) - 1"
      using heap_Pop_length[OF p] st2(2) by simp
    then show ?thesis
      by (rule mergeMeasure_pop[OF sh st2(1) _ assms(2)])
  next
    case False
    have "m_shards st2 = (m_shards st)[m_sh st ! 0 := shard\<lparr>rowRefNext := rowRefNext shard + 1\<rparr>]
       \<and> length (m_sh st2) = length (m_sh st)"
      using assms(1) sh w False
      by (auto simp: mergeRound_def Let_def split: option.splits if_splits dest: heap_Fix_length)
    then show ?thesis
      using mergeMeasure_step[OF sh _ _ False, of st2] by blast
  qed
qed

function mergeLoop :: "(nat \<Rightarrow> bool) \<Rightarrow> ('f::linorder) mergeState \<Rightarrow> (bool \<times> 'f mergeState) option" where
  "mergeLoop stopCh st =
     (if length (m_sh st) > 1 then
        (case mergeRound stopCh st of
           None \<Rightarrow> None
         | Some (MergeReturn st2) \<Rightarrow> Some (True, st2)
         | Some (MergeNext st2) \<Rightarrow> mergeLoop stopCh st2)
      else Some (False, st))"
  by pat_completeness auto
termination
  by (relation "measure (\<lambda>(stopCh, st). mergeMeasure st)") (auto dest: mergeRound_measure)

declare mergeLoop.simps [simp del]

text \<open>The loop that drains the last shard of the heap.\<close>

fun drainRows ::
  "pipeSortWriteContext \<Rightarrow> 'f pipeSortProcessorShard \<Rightarrow> nat list \<Rightarrow> pipeSortWriteContext option" where
  "drainRows wctx shard [] = Some wctx"
| "drainRows wctx shard (i # rest) =
     (case wctx_writeRow wctx shard i of
        None \<Rightarrow> None
      | Some w \<Rightarrow> drainRows w shard rest)"

text \<open>
  \<open>sort.Sort(shard)\<close> for every shard. The goroutines work on disjoint shards and
  \<open>flush\<close> waits for all of them, so the shards are sorted one after the other here.
\<close>

definition sortShard ::
  "('f::linorder) externals \<Rightarrow> 'f pipeSortProcessorShard \<Rightarrow> 'f pipeSortProcessorShard option" where
  "sortShard ext shard =
     map_option (\<lambda>refs. shard\<lparr>rowRefs := refs\<rparr>)
       (sortSort ext (\<lambda>rrA rrB. sortBlockLess_refs shard rrA shard rrB) (rowRefs shard))"

fun sortShards ::
  "('f::linorder) externals \<Rightarrow> 'f pipeSortProcessorShard list \<Rightarrow> 'f pipeSortProcessorShard list option" where
  "sortShards ext [] = Some []"
| "sortShards ext (shard # rest) =
     (case sortShard ext shard of
        None \<Rightarrow> None
      | Some s1 \<Rightarrow> map_option ((#) s1) (sortShards ext rest))"

subsection \<open>The error message\<close>

fun joinStrings :: "string \<Rightarrow> string list \<Rightarrow> string" where
  "joinStrings sep [] = []"
| "joinStrings sep [x] = x"
| "joinStrings sep (x # y # ys) = x @ sep @ joinStrings sep (y # ys)"

definition bySortField_String :: "'f externals \<Rightarrow> bySortField \<Rightarrow> string" where
  "bySortField_String ext bf =
     quoteTokenIfNeeded ext (bf_name bf) @ (if bf_isDesc bf then '' desc'' else [])"

definition pipeSort_String :: "'f externals \<Rightarrow> pipeSort \<Rightarrow> string" where
  "pipeSort_String ext p =
     ''sort'' @
     (if length (byFields p) > 0
      then '' by ('' @ joinStrings '', '' (map (bySortField_String ext) (byFields p)) @ '')''
      else []) @
     (if isDesc p then '' desc'' else [])"

text \<open>The verb \<open>%d\<close> of Go's \<open>fmt\<close>: decimal digits, with a minus sign below zero.\<close>

fun formatNat :: "nat \<Rightarrow> string" where
  "formatNat n =
     (if n < 10 then [''0123456789'' ! n]
      else formatNat (n div 10) @ [''0123456789'' ! (n mod 10)])"

declare formatNat.simps [simp del]

definition formatInt :: "int \<Rightarrow> string" where
  "formatInt i = (if i < 0 then ''-'' @ formatNat (nat (- i)) else formatNat (nat i))"

definition budgetError :: "'f externals \<Rightarrow> 'f pipeSortProcessor \<Rightarrow> string" where
  "budgetError ext psp =
     ''cannot calculate ['' @ pipeSort_String ext (psp_ps psp) @
     ''], since it requires more than '' @ formatInt (maxStateSize psp sdiv 1048576) @
     ''MB of memory''"

subsection \<open>flush\<close>

text \<open>
  The result of \<open>flush\<close>: the error (\<open>None\<close> is \<open>nil\<close>) and the blocks written to
  \<open>ppBase\<close>. \<open>None\<close> for the whole result is a panic.
\<close>

type_synonym flushResult = "string option \<times> (nat \<times> resultColumn list) list"

definition psp_flush ::
  "('f::linorder) externals \<Rightarrow> (nat \<Rightarrow> bool) \<Rightarrow> 'f pipeSortProcessor \<Rightarrow> flushResult option" where
  "psp_flush ext stopCh psp =
     (if psp_stateSizeBudget psp \<le> 0 then Some (Some (budgetError ext psp), [])
      else if stopCh 0 then Some (None, [])
      else
        (case sortShards ext (shards psp) of
           None \<Rightarrow> None
         | Some ss \<Rightarrow>
            if stopCh 1 then Some (None, [])
            else
              (let sh = filter (\<lambda>i. length (rowRefs (ss ! i)) > 0) [0..<length ss] in
               if length sh = 0 then Some (None, [])
               else
                 (case heap_Init (shardsLess ss) sh of
                    None \<Rightarrow> None
                  | Some sh1 \<Rightarrow>
                     (case mergeLoop stopCh
                             \<lparr>m_shards = ss, m_sh = sh1, m_shardNext = None,
                              m_wctx = \<lparr>rcs = [], valuesLen = 0, written = []\<rparr>,
                              m_polls = 2\<rparr> of
                        None \<Rightarrow> None
                      | Some (True, st) \<Rightarrow> Some (None, written (m_wctx st))
                      | Some (False, st) \<Rightarrow>
                         (case (if length (m_sh st) = 1 then
                                  (case at (m_shards st) (m_sh st ! 0) of
                                     None \<Rightarrow> None
                                   | Some shard \<Rightarrow>
                                       drainRows (m_wctx st) shard
                                         [rowRefNext shard..<length (rowRefs shard)])
                                else Some (m_wctx st)) of
                            None \<Rightarrow> None
                          | Some w \<Rightarrow> Some (None, written (wctx_flush w))))))))"

section \<open>Properties of the value coercion\<close>

lemma sint_uint_small: "uint (u::64 word) \<le> 2^63 - 1 \<Longrightarrow> sint u = uint u"
proof -
  assume a: "uint u \<le> 2^63 - 1"
  have "sint u = signed_take_bit 63 (uint u)" by (simp add: sint_uint)
  also have "\<dots> = uint u"
    by (rule signed_take_bit_int_eq_self) (use a uint_ge_0[of u] in linarith)+
  finally show ?thesis .
qed

lemma sint_neg_uint: "uint (u::64 word) \<le> 2^63 \<Longrightarrow> sint (- u) = - uint u"
proof -
  assume a: "uint u \<le> 2^63"
  have "- u = word_of_int (- uint u)" by simp
  then have "sint (- u) = signed_take_bit (LENGTH(64) - 1) (- uint u)"
    by (simp only: sint_sbintrunc')
  also have "\<dots> = signed_take_bit 63 (- uint u)" by simp
  also have "\<dots> = - uint u"
  proof (rule signed_take_bit_int_eq_self)
    show "- (2 ^ 63) \<le> - uint u" using a by linarith
    have "(0::int) < 2 ^ 63" by simp
    then show "- uint u < 2 ^ 63" using uint_ge_0[of u] by linarith
  qed
  finally show ?thesis .
qed

lemma sint_inj: "sint (a::64 word) = sint b \<Longrightarrow> a = b"
  by (rule signed_word_eqI)

lemma neg_uint_le: "- uint (u::64 word) \<le> 9223372036854775807"
  using uint_ge_0[of u] by linarith

lemma uint_ge_min: "- 9223372036854775808 \<le> uint (u::64 word)"
  using uint_ge_0[of u] by linarith

lemma gt_max: "((u::64 word) > 0x7FFFFFFFFFFFFFFF) = (uint u > 2^63 - 1)"
  by (simp add: word_less_alt)

lemma gt_min: "((u::64 word) > 0x8000000000000000) = (uint u > 2^63)"
  by (simp add: word_less_alt)

lemma tryParseInt64_minus:
  "tryParseInt64 pu (CHR ''-'' # r) =
     (case pu r of None \<Rightarrow> None | Some u \<Rightarrow> if uint u > 2^63 then None else Some (- u))"
  by (simp add: tryParseInt64_def gt_min split: option.splits)

lemma tryParseInt64_plus:
  "c \<noteq> CHR ''-'' \<Longrightarrow> tryParseInt64 pu (c # r) =
     (case pu (c # r) of None \<Rightarrow> None | Some u \<Rightarrow> if uint u > 2^63 - 1 then None else Some u)"
  by (simp add: tryParseInt64_def gt_max split: option.splits)

lemma tryParseInt64_Some_iff:
  "tryParseInt64 pu s = Some v \<longleftrightarrow>
     s \<noteq> [] \<and> (\<exists>u. pu (if hd s = CHR ''-'' then tl s else s) = Some u \<and>
        - (2^63) \<le> (if hd s = CHR ''-'' then - uint u else uint u) \<and>
        (if hd s = CHR ''-'' then - uint u else uint u) \<le> 2^63 - 1 \<and>
        sint v = (if hd s = CHR ''-'' then - uint u else uint u))"
proof (cases s)
  case Nil
  then show ?thesis by (simp add: tryParseInt64_def)
next
  case (Cons c r)
  show ?thesis
  proof (cases "c = CHR ''-''")
    case True
    have rhs: "(s \<noteq> [] \<and> (\<exists>u. pu (if hd s = CHR ''-'' then tl s else s) = Some u \<and>
        - (2^63) \<le> (if hd s = CHR ''-'' then - uint u else uint u) \<and>
        (if hd s = CHR ''-'' then - uint u else uint u) \<le> 2^63 - 1 \<and>
        sint v = (if hd s = CHR ''-'' then - uint u else uint u)))
      = (\<exists>u. pu r = Some u \<and> - (2^63) \<le> - uint u \<and> - uint u \<le> 2^63 - 1 \<and> sint v = - uint u)"
      using Cons True by simp
    have lhs: "tryParseInt64 pu s =
      (case pu r of None \<Rightarrow> None | Some u \<Rightarrow> if uint u > 2^63 then None else Some (- u))"
      using Cons True by (simp only: tryParseInt64_minus)
    show ?thesis
    proof (cases "pu r")
      case None
      then show ?thesis unfolding rhs lhs by simp
    next
      case (Some u)
      show ?thesis
      proof (cases "uint u \<le> 2^63")
        case le: True
        have sv: "sint (- u) = - uint u" by (rule sint_neg_uint[OF le])
        have "(v = - u) = (sint v = - uint u)"
          using sv sint_inj[of v "- u"] by auto
        moreover have "- uint u \<le> 2^63 - 1" by (simp add: neg_uint_le)
        moreover have "- (2^63) \<le> - uint u" using le by linarith
        ultimately show ?thesis unfolding rhs lhs using Some le by auto
      next
        case False
        then have "\<not> - (2^63) \<le> - uint u" by linarith
        then show ?thesis unfolding rhs lhs using Some False by auto
      qed
    qed
  next
    case False
    have rhs: "(s \<noteq> [] \<and> (\<exists>u. pu (if hd s = CHR ''-'' then tl s else s) = Some u \<and>
        - (2^63) \<le> (if hd s = CHR ''-'' then - uint u else uint u) \<and>
        (if hd s = CHR ''-'' then - uint u else uint u) \<le> 2^63 - 1 \<and>
        sint v = (if hd s = CHR ''-'' then - uint u else uint u)))
      = (\<exists>u. pu s = Some u \<and> - (2^63) \<le> uint u \<and> uint u \<le> 2^63 - 1 \<and> sint v = uint u)"
      using Cons False by simp
    have lhs: "tryParseInt64 pu s =
      (case pu s of None \<Rightarrow> None | Some u \<Rightarrow> if uint u > 2^63 - 1 then None else Some u)"
      using Cons tryParseInt64_plus[OF False, of pu r] by simp
    show ?thesis
    proof (cases "pu s")
      case None
      then show ?thesis unfolding rhs lhs by simp
    next
      case (Some u)
      have u1: "- (2^63) \<le> uint u" by (simp add: uint_ge_min)
      show ?thesis
      proof (cases "uint u \<le> 2^63 - 1")
        case le: True
        have sv: "sint u = uint u" by (rule sint_uint_small[OF le])
        have "(v = u) = (sint v = uint u)"
          using sv sint_inj[of v u] by auto
        then show ?thesis unfolding rhs lhs using Some le u1 by auto
      next
        case nle: False
        then show ?thesis unfolding rhs lhs using Some by auto
      qed
    qed
  qed
qed

lemma sint_min_int64: "sint (- 9223372036854775808 :: 64 word) = - (2^63)"
  using sint_neg_uint[of "9223372036854775808"] by simp

lemma tryParseUint64_decimal_2_63:
  "tryParseUint64_decimal ''9223372036854775808'' = Some 9223372036854775808"
  by (simp add: tryParseUint64_decimal_def isDigit_def decimalValue_def)

text \<open>
  Claim C6. \<open>tryParseInt64\<close> is not-ok for the empty string. Otherwise it takes an optional
  leading \<open>-\<close>, hands the rest to \<open>tryParseUint64\<close>, and succeeds exactly when that
  succeeds with a magnitude \<open>u\<close> whose signed value (\<open>-u\<close> after a minus, \<open>u\<close> otherwise)
  lies in \<open>[-2^63, 2^63 - 1]\<close>; the result is then that value. With an unsigned parser
  that reads \<open>9223372036854775808\<close> as \<open>2^63\<close>, the string \<open>-9223372036854775808\<close> parses
  to \<open>-2^63\<close> and \<open>9223372036854775808\<close> is rejected.
\<close>

theorem tryParseInt64_signed_range:
  "tryParseInt64 pu [] = None \<and>
   (\<forall>s v. tryParseInt64 pu s = Some v \<longleftrightarrow>
      s \<noteq> [] \<and> (\<exists>u. pu (if hd s = CHR ''-'' then tl s else s) = Some u \<and>
        - (2^63) \<le> (if hd s = CHR ''-'' then - uint u else uint u) \<and>
        (if hd s = CHR ''-'' then - uint u else uint u) \<le> 2^63 - 1 \<and>
        sint v = (if hd s = CHR ''-'' then - uint u else uint u))) \<and>
   (pu ''9223372036854775808'' = Some 9223372036854775808 \<longrightarrow>
      (\<exists>v. tryParseInt64 pu ''-9223372036854775808'' = Some v \<and> sint v = - (2^63)) \<and>
      tryParseInt64 pu ''9223372036854775808'' = None)"
proof (intro conjI allI impI)
  show "tryParseInt64 pu [] = None" by (simp add: tryParseInt64_def)
next
  fix s v
  show "tryParseInt64 pu s = Some v \<longleftrightarrow>
      s \<noteq> [] \<and> (\<exists>u. pu (if hd s = CHR ''-'' then tl s else s) = Some u \<and>
        - (2^63) \<le> (if hd s = CHR ''-'' then - uint u else uint u) \<and>
        (if hd s = CHR ''-'' then - uint u else uint u) \<le> 2^63 - 1 \<and>
        sint v = (if hd s = CHR ''-'' then - uint u else uint u))"
    by (rule tryParseInt64_Some_iff)
next
  assume p: "pu ''9223372036854775808'' = Some 9223372036854775808"
  have "tryParseInt64 pu ''-9223372036854775808'' = Some (- 9223372036854775808)"
    using p by (simp add: tryParseInt64_minus)
  then show "\<exists>v. tryParseInt64 pu ''-9223372036854775808'' = Some v \<and> sint v = - (2^63)"
    using sint_min_int64 by simp
next
  assume p: "pu ''9223372036854775808'' = Some 9223372036854775808"
  show "tryParseInt64 pu ''9223372036854775808'' = None"
    using p by (simp add: tryParseInt64_plus)
qed

theorem tryParseInt64_signed_range_witness:
  "tryParseUint64_decimal ''9223372036854775808'' = Some 9223372036854775808 \<and>
   (\<exists>v. tryParseInt64 tryParseUint64_decimal ''-9223372036854775808'' = Some v \<and> sint v = - (2^63)) \<and>
   tryParseInt64 tryParseUint64_decimal ''9223372036854775808'' = None \<and>
   tryParseInt64 tryParseUint64_decimal [] = None"
  using tryParseInt64_signed_range[of tryParseUint64_decimal] tryParseUint64_decimal_2_63
  by blast

section \<open>Properties of the comparator\<close>

text \<open>Swapping the two rows negates what a key decides.\<close>

definition negOutcome :: "keyOutcome \<Rightarrow> keyOutcome" where
  "negOutcome r = (case r of NextKey \<Rightarrow> NextKey | Return x \<Rightarrow> Return (\<not> x))"

lemma negOutcome_simps [simp]:
  "negOutcome NextKey = NextKey" "negOutcome (Return x) = Return (\<not> x)"
  by (simp_all add: negOutcome_def)

lemma swap_sless: "(a::int64) \<noteq> b \<Longrightarrow> (b <s a) = (\<not> a <s b)"
  using signed.not_less_iff_gr_or_eq[of a b] by auto

lemma cmp_swap_lin:
  "(if (b::'a::linorder) = a then NextKey else if d then Return (a < b) else Return (b < a)) =
   negOutcome (if a = b then NextKey else if d then Return (b < a) else Return (a < b))"
proof (cases "a = b")
  case True then show ?thesis by simp
next
  case False
  then have "(b < a) = (\<not> a < b)" by auto
  with False show ?thesis by simp
qed

lemma cmp_swap_sless:
  "(if (b::int64) = a then NextKey else if d then Return (a <s b) else Return (b <s a)) =
   negOutcome (if a = b then NextKey else if d then Return (b <s a) else Return (a <s b))"
proof (cases "a = b")
  case True then show ?thesis by simp
next
  case False
  then have "(b <s a) = (\<not> a <s b)" by (rule swap_sless)
  with False show ?thesis by simp
qed

lemma cmp_swap_const:
  "(if (b::'a::linorder) = a then NextKey else Return (b < a)) =
   negOutcome (if a = b then NextKey else Return (a < b))"
proof (cases "a = b")
  case True then show ?thesis by simp
next
  case False
  then have "(b < a) = (\<not> a < b)" by auto
  with False show ?thesis by simp
qed

text \<open>The tiers of one key, once the two columns and the direction are known.\<close>

definition tierConst :: "blockResultColumn \<Rightarrow> blockResultColumn \<Rightarrow> keyOutcome option" where
  "tierConst a b = do {
       ccA \<leftarrow> at (encodedValues a) 0;
       ccB \<leftarrow> at (encodedValues b) 0;
       Some (if ccA = ccB then NextKey else Return (ccA < ccB))
     }"

lemma key_const:
  assumes "at (byColumns bA) idx = Some cA" "at (byColumns bB) idx = Some cB"
    "keyIsDesc p idx = Some desc" "isConst (col cA)" "isConst (col cB)"
  shows "sortBlockLess_key p bA rrA bB rrB idx = tierConst (col cA) (col cB)"
  using assms by (simp add: sortBlockLess_key_def tierConst_def)

definition tierTime :: "bool \<Rightarrow> blockResult \<Rightarrow> nat \<Rightarrow> blockResult \<Rightarrow> nat \<Rightarrow> keyOutcome option" where
  "tierTime desc a i b j = do {
       tA \<leftarrow> at (timestamps a) i;
       tB \<leftarrow> at (timestamps b) j;
       Some (if tA = tB then NextKey
             else if desc then Return (tB <s tA) else Return (tA <s tB))
     }"

definition tierString :: "bool \<Rightarrow> string \<Rightarrow> string \<Rightarrow> keyOutcome" where
  "tierString desc sA sB =
     (if sA = sB then NextKey else if desc then Return (sB < sA) else Return (sA < sB))"

definition tierFloat :: "bool \<Rightarrow> ('f::linorder) float64 \<Rightarrow> 'f float64 \<Rightarrow> string \<Rightarrow> string \<Rightarrow> keyOutcome" where
  "tierFloat desc fA fB sA sB =
     (if \<not> isNaN fA \<and> \<not> isNaN fB then
        (if f64_eq fA fB then NextKey
         else if desc then Return (f64_less fB fA) else Return (f64_less fA fB))
      else tierString desc sA sB)"

definition tierValues ::
  "bool \<Rightarrow> ('f::linorder) sortBlockByColumn \<Rightarrow> blockResult \<Rightarrow> nat \<Rightarrow> 'f sortBlockByColumn \<Rightarrow> blockResult \<Rightarrow> nat
     \<Rightarrow> keyOutcome option" where
  "tierValues desc cA a i cB b j = do {
       uA \<leftarrow> getI64ValueAtRow cA i;
       uB \<leftarrow> getI64ValueAtRow cB j;
       if uA \<noteq> 0 \<and> uB \<noteq> 0 then
         Some (if uA = uB then NextKey
               else if desc then Return (uB <s uA) else Return (uA <s uB))
       else do {
         fA \<leftarrow> getF64ValueAtRow cA i;
         fB \<leftarrow> getF64ValueAtRow cB j;
         if \<not> isNaN fA \<and> \<not> isNaN fB then
           Some (if f64_eq fA fB then NextKey
                 else if desc then Return (f64_less fB fA) else Return (f64_less fA fB))
         else
           let sA = getValueAtRow (col cA) a i;
               sB = getValueAtRow (col cB) b j
           in Some (if sA = sB then NextKey
                    else if desc then Return (sB < sA) else Return (sA < sB))
       }
     }"

lemma tierValues_floats:
  assumes "getI64ValueAtRow cA i = Some uA" "getI64ValueAtRow cB j = Some uB"
    "\<not> (uA \<noteq> 0 \<and> uB \<noteq> 0)"
    "getF64ValueAtRow cA i = Some fA" "getF64ValueAtRow cB j = Some fB"
  shows "tierValues desc cA a i cB b j =
    Some (tierFloat desc fA fB (getValueAtRow (col cA) a i) (getValueAtRow (col cB) b j))"
  using assms
  by (cases "uA = 0"; cases "\<not> isNaN fA \<and> \<not> isNaN fB";
      simp add: tierValues_def tierFloat_def tierString_def del: de_Morgan_conj)

lemma key_time:
  assumes "at (byColumns bA) idx = Some cA" "at (byColumns bB) idx = Some cB"
    "keyIsDesc p idx = Some desc" "\<not> (isConst (col cA) \<and> isConst (col cB))"
    "isTime (col cA)" "isTime (col cB)"
  shows "sortBlockLess_key p bA rrA bB rrB idx = tierTime desc (br bA) (rowIdx rrA) (br bB) (rowIdx rrB)"
  using assms by (cases "isConst (col cA)"; cases "isConst (col cB)"; simp add: sortBlockLess_key_def tierTime_def)

lemma key_timeA:
  assumes "at (byColumns bA) idx = Some cA" "at (byColumns bB) idx = Some cB"
    "keyIsDesc p idx = Some desc" "\<not> (isConst (col cA) \<and> isConst (col cB))"
    "isTime (col cA)" "\<not> isTime (col cB)"
  shows "sortBlockLess_key p bA rrA bB rrB idx = Some (Return True)"
  using assms by (cases "isConst (col cA)"; cases "isConst (col cB)"; simp add: sortBlockLess_key_def)

lemma key_timeB:
  assumes "at (byColumns bA) idx = Some cA" "at (byColumns bB) idx = Some cB"
    "keyIsDesc p idx = Some desc" "\<not> (isConst (col cA) \<and> isConst (col cB))"
    "\<not> isTime (col cA)" "isTime (col cB)"
  shows "sortBlockLess_key p bA rrA bB rrB idx = Some (Return False)"
  using assms by (cases "isConst (col cA)"; cases "isConst (col cB)"; simp add: sortBlockLess_key_def)

lemma key_values:
  assumes "at (byColumns bA) idx = Some cA" "at (byColumns bB) idx = Some cB"
    "keyIsDesc p idx = Some desc" "\<not> (isConst (col cA) \<and> isConst (col cB))"
    "\<not> isTime (col cA)" "\<not> isTime (col cB)"
  shows "sortBlockLess_key p bA rrA bB rrB idx =
           tierValues desc cA (br bA) (rowIdx rrA) cB (br bB) (rowIdx rrB)"
  using assms by (cases "isConst (col cA)"; cases "isConst (col cB)";
        simp add: sortBlockLess_key_def tierValues_def del: de_Morgan_conj)

lemma tierConst_swap: "tierConst b a = map_option negOutcome (tierConst a b)"
proof (cases "at (encodedValues a) 0")
  case None
  then show ?thesis by (cases "at (encodedValues b) 0") (simp_all add: tierConst_def)
next
  case x: (Some x)
  show ?thesis
  proof (cases "at (encodedValues b) 0")
    case None
    then show ?thesis using x by (simp add: tierConst_def)
  next
    case (Some y)
    then show ?thesis using x cmp_swap_const[of y x] by (simp add: tierConst_def)
  qed
qed

lemma tierTime_swap: "tierTime desc b j a i = map_option negOutcome (tierTime desc a i b j)"
proof (cases "at (timestamps a) i")
  case None
  then show ?thesis by (cases "at (timestamps b) j") (simp_all add: tierTime_def)
next
  case x: (Some x)
  show ?thesis
  proof (cases "at (timestamps b) j")
    case None
    then show ?thesis using x by (simp add: tierTime_def)
  next
    case (Some y)
    then show ?thesis using x cmp_swap_sless[of y x desc] by (simp add: tierTime_def)
  qed
qed

lemma tierString_swap: "tierString desc sB sA = negOutcome (tierString desc sA sB)"
  using cmp_swap_lin[of sB sA desc] by (simp add: tierString_def)

lemma tierFloat_swap: "tierFloat desc fB fA sB sA = negOutcome (tierFloat desc fA fB sA sB)"
proof (cases fA)
  case NaN
  then show ?thesis using tierString_swap[of desc sB sA] by (simp add: tierFloat_def isNaN_def)
next
  case x: (Float x)
  show ?thesis
  proof (cases fB)
    case NaN
    then show ?thesis using tierString_swap[of desc sB sA] by (simp add: tierFloat_def isNaN_def)
  next
    case y: (Float y)
    have "tierFloat desc fB fA sB sA =
        (if y = x then NextKey else if desc then Return (x < y) else Return (y < x))"
      using x y by (simp add: tierFloat_def isNaN_def)
    also have "\<dots> = negOutcome (if x = y then NextKey
           else if desc then Return (y < x) else Return (x < y))"
      by (rule cmp_swap_lin)
    also have "\<dots> = negOutcome (tierFloat desc fA fB sA sB)"
      using x y by (simp add: tierFloat_def isNaN_def)
    finally show ?thesis .
  qed
qed

lemma tierValues_swap:
  "tierValues desc cB b j cA a i = map_option negOutcome (tierValues desc cA a i cB b j)"
proof (cases "getI64ValueAtRow cA i")
  case None
  then show ?thesis by (cases "getI64ValueAtRow cB j") (simp_all add: tierValues_def)
next
  case uA: (Some uA)
  show ?thesis
  proof (cases "getI64ValueAtRow cB j")
    case None
    then show ?thesis using uA by (simp add: tierValues_def)
  next
    case uB: (Some uB)
    show ?thesis
    proof (cases "uA \<noteq> 0 \<and> uB \<noteq> 0")
      case True
      then show ?thesis using uA uB cmp_swap_sless[of uB uA desc] by (simp add: tierValues_def)
    next
      case False
      then have z: "\<not> (uB \<noteq> 0 \<and> uA \<noteq> 0)" by auto
      show ?thesis
      proof (cases "getF64ValueAtRow cA i")
        case None
        then show ?thesis using uA uB False z
          by (cases "getF64ValueAtRow cB j"; cases "uA = 0"; simp add: tierValues_def)
      next
        case fA: (Some fA)
        show ?thesis
        proof (cases "getF64ValueAtRow cB j")
          case None
          then show ?thesis using uA uB False z fA
            by (cases "uA = 0"; simp add: tierValues_def)
        next
          case fB: (Some fB)
          show ?thesis
            using tierValues_floats[OF uA uB False fA fB, of desc a b]
              tierValues_floats[OF uB uA z fB fA, of desc b a]
              tierFloat_swap[of desc fB fA "getValueAtRow (col cB) b j" "getValueAtRow (col cA) a i"]
            by simp
        qed
      qed
    qed
  qed
qed

lemma key_swap:
  "sortBlockLess_key p bB rrB bA rrA idx =
     map_option negOutcome (sortBlockLess_key p bA rrA bB rrB idx)"
proof (cases "at (byColumns bA) idx")
  case None
  then show ?thesis by (cases "at (byColumns bB) idx") (simp_all add: sortBlockLess_key_def)
next
  case cA: (Some cA)
  show ?thesis
  proof (cases "at (byColumns bB) idx")
    case None
    then show ?thesis using cA by (simp add: sortBlockLess_key_def)
  next
    case cB: (Some cB)
    show ?thesis
    proof (cases "keyIsDesc p idx")
      case None
      then show ?thesis using cA cB by (simp add: sortBlockLess_key_def)
    next
      case d: (Some desc)
      consider (const) "isConst (col cA) \<and> isConst (col cB)"
        | (time) "\<not> (isConst (col cA) \<and> isConst (col cB))" "isTime (col cA)" "isTime (col cB)"
        | (timeA) "\<not> (isConst (col cA) \<and> isConst (col cB))" "isTime (col cA)" "\<not> isTime (col cB)"
        | (timeB) "\<not> (isConst (col cA) \<and> isConst (col cB))" "\<not> isTime (col cA)" "isTime (col cB)"
        | (vals) "\<not> (isConst (col cA) \<and> isConst (col cB))" "\<not> isTime (col cA)" "\<not> isTime (col cB)"
        by blast
      then show ?thesis
      proof cases
        case const
        then show ?thesis
          using key_const[OF cA cB d, of rrA rrB] key_const[OF cB cA d, of rrB rrA]
            tierConst_swap[of "col cB" "col cA"]
          by simp
      next
        case time
        have n: "\<not> (isConst (col cB) \<and> isConst (col cA))" using time(1) by blast
        show ?thesis
          using key_time[OF cA cB d time(1) time(2) time(3), of rrA rrB]
            key_time[OF cB cA d n time(3) time(2), of rrB rrA]
            tierTime_swap[of desc "br bB" "rowIdx rrB" "br bA" "rowIdx rrA"]
          by simp
      next
        case timeA
        have n: "\<not> (isConst (col cB) \<and> isConst (col cA))" using timeA(1) by blast
        show ?thesis
          using key_timeA[OF cA cB d timeA(1) timeA(2) timeA(3), of rrA rrB]
            key_timeB[OF cB cA d n timeA(3) timeA(2), of rrB rrA]
          by simp
      next
        case timeB
        have n: "\<not> (isConst (col cB) \<and> isConst (col cA))" using timeB(1) by blast
        show ?thesis
          using key_timeB[OF cA cB d timeB(1) timeB(2) timeB(3), of rrA rrB]
            key_timeA[OF cB cA d n timeB(3) timeB(2), of rrB rrA]
          by simp
      next
        case vals
        have n: "\<not> (isConst (col cB) \<and> isConst (col cA))" using vals(1) by blast
        show ?thesis
          using key_values[OF cA cB d vals(1) vals(2) vals(3), of rrA rrB]
            key_values[OF cB cA d n vals(3) vals(2), of rrB rrA]
            tierValues_swap[of desc cB "br bB" "rowIdx rrB" cA "br bA" "rowIdx rrA"]
          by simp
      qed
    qed
  qed
qed

lemma loop_asym:
  "sortBlockLess_loop p bA rrA bB rrB [k..<n] = Some True \<Longrightarrow>
   sortBlockLess_loop p bB rrB bA rrA [k..<m] \<noteq> Some True"
proof (induction "n - k" arbitrary: k)
  case 0
  have e: "[k..<n] = []" using "0.hyps" by auto
  show ?case using "0.prems" unfolding e by simp
next
  case (Suc d)
  have "k < n" using Suc.hyps(2) by linarith
  then have kn: "[k..<n] = k # [Suc k..<n]" by (simp add: upt_conv_Cons)
  show ?case
  proof (cases "k < m")
    case False
    then have "m \<le> k" by linarith
    then have e: "[k..<m] = []" by (rule upt_conv_Nil)
    show ?thesis unfolding e by simp
  next
    case True
    then have km: "[k..<m] = k # [Suc k..<m]" by (simp add: upt_conv_Cons)
    have sw: "sortBlockLess_key p bB rrB bA rrA k =
        map_option negOutcome (sortBlockLess_key p bA rrA bB rrB k)"
      by (rule key_swap)
    show ?thesis
    proof (cases "sortBlockLess_key p bA rrA bB rrB k")
      case None
      then show ?thesis using Suc.prems kn by simp
    next
      case (Some r)
      show ?thesis
      proof (cases r)
        case NextKey
        have ab: "sortBlockLess_loop p bA rrA bB rrB [Suc k..<n] = Some True"
          using Suc.prems Some NextKey kn by simp
        have "d = n - Suc k" using Suc.hyps(2) by simp
        from Suc.hyps(1)[OF this ab]
        show ?thesis using sw Some NextKey km by simp
      next
        case (Return x)
        then have "x" using Suc.prems Some kn by simp
        then show ?thesis using sw Some Return km by simp
      qed
    qed
  qed
qed

lemma sortBlockLess_refs_asym:
  assumes "ps shardA = ps shardB" "sortBlockLess_refs shardA rrA shardB rrB = Some True"
  shows "sortBlockLess_refs shardB rrB shardA rrA \<noteq> Some True"
proof -
  obtain bA where bA: "at (blocks shardA) (blockIdx rrA) = Some bA"
    using assms(2) by (cases "at (blocks shardA) (blockIdx rrA)") (auto simp: sortBlockLess_refs_def)
  obtain bB where bB: "at (blocks shardB) (blockIdx rrB) = Some bB"
    using assms(2) bA by (cases "at (blocks shardB) (blockIdx rrB)") (auto simp: sortBlockLess_refs_def)
  have ab: "sortBlockLess_loop (ps shardA) bA rrA bB rrB [0..<length (byColumns bA)] = Some True"
    using assms(2) bA bB by (simp add: sortBlockLess_refs_def)
  have "sortBlockLess_loop (ps shardA) bB rrB bA rrA [0..<length (byColumns bB)] \<noteq> Some True"
    by (rule loop_asym[OF ab])
  then show ?thesis using bA bB assms(1) by (simp add: sortBlockLess_refs_def)
qed

lemma sortBlockLess_asym:
  assumes "ps shardA = ps shardB" "sortBlockLess shardA iA shardB iB = Some True"
  shows "sortBlockLess shardB iB shardA iA \<noteq> Some True"
proof -
  obtain rrA where rrA: "at (rowRefs shardA) iA = Some rrA"
    using assms(2) by (cases "at (rowRefs shardA) iA") (auto simp: sortBlockLess_def)
  obtain rrB where rrB: "at (rowRefs shardB) iB = Some rrB"
    using assms(2) rrA by (cases "at (rowRefs shardB) iB") (auto simp: sortBlockLess_def)
  have "sortBlockLess_refs shardA rrA shardB rrB = Some True"
    using assms(2) rrA rrB by (simp add: sortBlockLess_def)
  from sortBlockLess_refs_asym[OF assms(1) this]
  show ?thesis using rrA rrB by (simp add: sortBlockLess_def)
qed

section \<open>Example data\<close>

text \<open>
  An instance of the externals and a few blocks, on which the theorems below are run:
  unsigned decimal numbers parse as integers and as floats, no cell is an IPv4 address,
  \<open>sort.Sort\<close> is an insertion sort, the chunk is \<open>1 << 20\<close> and the state may take
  100 MiB.
\<close>

fun insertRef :: "('a \<Rightarrow> 'a \<Rightarrow> bool option) \<Rightarrow> 'a \<Rightarrow> 'a list \<Rightarrow> 'a list option" where
  "insertRef lt x [] = Some [x]"
| "insertRef lt x (y # ys) =
     (case lt y x of
        None \<Rightarrow> None
      | Some True \<Rightarrow> map_option ((#) y) (insertRef lt x ys)
      | Some False \<Rightarrow> Some (x # y # ys))"

fun insertionSort :: "('a \<Rightarrow> 'a \<Rightarrow> bool option) \<Rightarrow> 'a list \<Rightarrow> 'a list option" where
  "insertionSort lt [] = Some []"
| "insertionSort lt (x # xs) =
     (case insertionSort lt xs of
        None \<Rightarrow> None
      | Some ys \<Rightarrow> insertRef lt x ys)"

definition exampleExternals :: "int externals" where
  "exampleExternals =
     \<lparr>tryParseUint64 = tryParseUint64_decimal,
      tryParseIPv4 = (\<lambda>s. (0, False)),
      tryParseFloat64 = (\<lambda>s. case tryParseUint64_decimal s of
                                 Some u \<Rightarrow> (Float (uint u), True)
                               | None \<Rightarrow> (NaN, False)),
      strconvQuote = (\<lambda>s. [CHR 0x22] @ s @ [CHR 0x22]),
      quoteTokenIfNeeded = (\<lambda>s. s),
      sortSort = insertionSort,
      stateSizeBudgetChunk = 1048576,
      allowedStateSize = 104857600,
      sizeofSortBlockByColumn = 56,
      sizeofBlockResultColumn = 128,
      sizeofColumnPointer = 8,
      sizeofSortBlock = 56,
      sizeofSortRowRef = 16,
      sizeofInt64 = 8,
      sizeofFloat64 = 8\<rparr>"

definition stringColumn :: "string \<Rightarrow> string list \<Rightarrow> blockResultColumn" where
  "stringColumn n vs =
     \<lparr>name = n, isTime = False, isConst = False, encodedValues = vs, valueAt = (\<lambda>i. vs ! i)\<rparr>"

definition constColumn :: "string \<Rightarrow> string \<Rightarrow> blockResultColumn" where
  "constColumn n v =
     \<lparr>name = n, isTime = False, isConst = True, encodedValues = [v], valueAt = (\<lambda>i. v)\<rparr>"

definition exampleBlock :: "string \<Rightarrow> string list \<Rightarrow> blockResult" where
  "exampleBlock n vs =
     \<lparr>timestamps = map (\<lambda>i. of_nat i) [0..<length vs], columns = [stringColumn n vs],
      sizeBytes = int (length (concat vs))\<rparr>"

definition sortByN :: pipeSort where
  "sortByN = \<lparr>byFields = [\<lparr>bf_name = ''n'', bf_isDesc = False\<rparr>], isDesc = False\<rparr>"

definition sortByHostKDesc :: pipeSort where
  "sortByHostKDesc =
     \<lparr>byFields = [\<lparr>bf_name = ''host'', bf_isDesc = False\<rparr>, \<lparr>bf_name = ''k'', bf_isDesc = True\<rparr>],
      isDesc = False\<rparr>"

definition constBlock :: "string \<Rightarrow> int sortBlock" where
  "constBlock v =
     \<lparr>br = \<lparr>timestamps = [0], columns = [constColumn ''host'' ''h'', constColumn ''k'' v],
             sizeBytes = 2\<rparr>,
      byColumns = [\<lparr>col = constColumn ''host'' ''h'', i64Values = [0], f64Values = [NaN]\<rparr>,
                   \<lparr>col = constColumn ''k'' v, i64Values = [0], f64Values = [NaN]\<rparr>],
      otherColumns = []\<rparr>"

definition constShard :: "string \<Rightarrow> int pipeSortProcessorShard" where
  "constShard v =
     \<lparr>ps = sortByHostKDesc, blocks = [constBlock v], rowRefs = [\<lparr>blockIdx = 0, rowIdx = 0\<rparr>],
      rowRefNext = 0, stateSizeBudget = 0\<rparr>"

definition flipDirection :: "'f pipeSortProcessorShard \<Rightarrow> 'f pipeSortProcessorShard" where
  "flipDirection shard = shard\<lparr>ps := (ps shard)\<lparr>isDesc := \<not> isDesc (ps shard)\<rparr>\<rparr>"

section \<open>Claims about the comparator\<close>

text \<open>The keys that tie are skipped, and a tie does not depend on the direction.\<close>

lemma keyIsDesc_flip:
  "keyIsDesc p idx = Some desc \<Longrightarrow> keyIsDesc (p\<lparr>isDesc := \<not> isDesc p\<rparr>) idx = Some (\<not> desc)"
  by (cases "if length (byFields p) > 0 then map_option bf_isDesc (at (byFields p) idx) else Some False")
     (auto simp: keyIsDesc_def split: if_splits)

lemma loop_skip_ties:
  "\<forall>k\<in>set xs. sortBlockLess_key p bA rrA bB rrB k = Some NextKey \<Longrightarrow>
     sortBlockLess_loop p bA rrA bB rrB (xs @ ys) = sortBlockLess_loop p bA rrA bB rrB ys"
  by (induction xs) simp_all

lemma upt_split_at: "idx < n \<Longrightarrow> [0..<n] = [0..<idx] @ idx # [Suc idx..<n]"
  by (metis le_add2 le_add_same_cancel2 less_imp_add_positive upt_add_eq_append upt_conv_Cons)

lemma loop_at_first_decided:
  assumes "\<forall>k<idx. sortBlockLess_key p bA rrA bB rrB k = Some NextKey" "idx < n"
  shows "sortBlockLess_loop p bA rrA bB rrB [0..<n] =
     (case sortBlockLess_key p bA rrA bB rrB idx of
        None \<Rightarrow> None
      | Some NextKey \<Rightarrow> sortBlockLess_loop p bA rrA bB rrB [Suc idx..<n]
      | Some (Return r) \<Rightarrow> Some r)"
proof -
  have "sortBlockLess_loop p bA rrA bB rrB ([0..<idx] @ idx # [Suc idx..<n]) =
        sortBlockLess_loop p bA rrA bB rrB (idx # [Suc idx..<n])"
    by (rule loop_skip_ties) (use assms(1) in simp)
  then show ?thesis using upt_split_at[OF assms(2)] by simp
qed

lemma tierTime_tie_flip:
  "tierTime d a i b j = Some NextKey \<Longrightarrow> tierTime d' a i b j = Some NextKey"
  by (cases "at (timestamps a) i"; cases "at (timestamps b) j")
     (auto simp: tierTime_def split: if_splits)

lemma tierValues_tie_flip:
  "tierValues d cA a i cB b j = Some NextKey \<Longrightarrow> tierValues d' cA a i cB b j = Some NextKey"
  by (cases "getI64ValueAtRow cA i"; cases "getI64ValueAtRow cB j";
      cases "getF64ValueAtRow cA i"; cases "getF64ValueAtRow cB j")
     (auto simp: tierValues_def Let_def split: if_splits)

lemma key_tie_flip:
  assumes "sortBlockLess_key p bA rrA bB rrB idx = Some NextKey"
    "byFields p' = byFields p"
  shows "sortBlockLess_key p' bA rrA bB rrB idx = Some NextKey"
proof -
  obtain cA where cA: "at (byColumns bA) idx = Some cA"
    using assms(1) by (cases "at (byColumns bA) idx") (simp_all add: sortBlockLess_key_def)
  obtain cB where cB: "at (byColumns bB) idx = Some cB"
    using assms(1) cA by (cases "at (byColumns bB) idx") (simp_all add: sortBlockLess_key_def)
  obtain d where d: "keyIsDesc p idx = Some d"
    using assms(1) cA cB by (cases "keyIsDesc p idx") (simp_all add: sortBlockLess_key_def)
  obtain d' where d': "keyIsDesc p' idx = Some d'"
    using d assms(2)
    by (cases "if length (byFields p) > 0 then map_option bf_isDesc (at (byFields p) idx) else Some False")
       (auto simp: keyIsDesc_def split: if_splits)
  show ?thesis
  proof (cases "isConst (col cA) \<and> isConst (col cB)")
    case True
    then show ?thesis using key_const[OF cA cB d, of rrA rrB] key_const[OF cA cB d', of rrA rrB] assms(1)
      by simp
  next
    case nc: False
    show ?thesis
    proof (cases "isTime (col cA)")
      case tA: True
      show ?thesis
      proof (cases "isTime (col cB)")
        case True
        then show ?thesis
          using key_time[OF cA cB d nc tA, of rrA rrB] key_time[OF cA cB d' nc tA, of rrA rrB]
            assms(1) tierTime_tie_flip by metis
      next
        case False
        then show ?thesis using key_timeA[OF cA cB d nc tA, of rrA rrB] assms(1) by simp
      qed
    next
      case tA: False
      show ?thesis
      proof (cases "isTime (col cB)")
        case True
        then show ?thesis using key_timeB[OF cA cB d nc tA, of rrA rrB] assms(1) by simp
      next
        case False
        then show ?thesis
          using key_values[OF cA cB d nc tA, of rrA rrB] key_values[OF cA cB d' nc tA, of rrA rrB]
            assms(1) tierValues_tie_flip by metis
      qed
    qed
  qed
qed

lemma sortBlockLess_at_first_decided:
  assumes "at (rowRefs shardA) iA = Some rrA" and "at (rowRefs shardB) iB = Some rrB"
    and "at (blocks shardA) (blockIdx rrA) = Some bA" and "at (blocks shardB) (blockIdx rrB) = Some bB"
    and "\<forall>k<idx. sortBlockLess_key (ps shardA) bA rrA bB rrB k = Some NextKey"
    and "idx < length (byColumns bA)"
  shows "sortBlockLess shardA iA shardB iB =
     (case sortBlockLess_key (ps shardA) bA rrA bB rrB idx of
        None \<Rightarrow> None
      | Some NextKey \<Rightarrow> sortBlockLess_loop (ps shardA) bA rrA bB rrB [Suc idx..<length (byColumns bA)]
      | Some (Return r) \<Rightarrow> Some r)"
  using loop_at_first_decided[OF assms(5,6)] assms(1-4)
  by (simp add: sortBlockLess_def sortBlockLess_refs_def)

text \<open>
  Claim C3. Two rows are compared whose keys before position \<open>idx\<close> tie and whose column
  of key \<open>idx\<close> is const on both sides. Then \<open>sortBlockLess\<close> orders the rows by
  \<open>encodedValues[0]\<close> of the two columns, compared as strings in ascending order,
  whatever the effective direction of the key is: the answer is the same after the
  direction of the pipe has been flipped, which flips the direction of the key. Only
  when the two values are equal do the keys after \<open>idx\<close> decide.
\<close>

theorem const_fast_path_ignores_direction:
  assumes "at (rowRefs shardA) iA = Some rrA" and "at (rowRefs shardB) iB = Some rrB"
    and "at (blocks shardA) (blockIdx rrA) = Some bA" and "at (blocks shardB) (blockIdx rrB) = Some bB"
    and "\<forall>k<idx. sortBlockLess_key (ps shardA) bA rrA bB rrB k = Some NextKey"
    and "at (byColumns bA) idx = Some cA" and "at (byColumns bB) idx = Some cB"
    and "isConst (col cA)" and "isConst (col cB)"
    and "encodedValues (col cA) = vA # restA" and "encodedValues (col cB) = vB # restB"
    and "keyIsDesc (ps shardA) idx = Some desc"
  shows "sortBlockLess shardA iA shardB iB =
           (if vA = vB
            then sortBlockLess_loop (ps shardA) bA rrA bB rrB [Suc idx..<length (byColumns bA)]
            else Some (vA < vB)) \<and>
         sortBlockLess (flipDirection shardA) iA shardB iB =
           (if vA = vB
            then sortBlockLess_loop (ps (flipDirection shardA)) bA rrA bB rrB
                   [Suc idx..<length (byColumns bA)]
            else Some (vA < vB)) \<and>
         keyIsDesc (ps (flipDirection shardA)) idx = Some (\<not> desc)"
proof -
  have n: "idx < length (byColumns bA)" using at_Some[OF assms(6)] by simp
  have t: "tierConst (col cA) (col cB) = Some (if vA = vB then NextKey else Return (vA < vB))"
    using assms(10,11) by (simp add: tierConst_def at_def)
  have k1: "sortBlockLess_key (ps shardA) bA rrA bB rrB idx =
           Some (if vA = vB then NextKey else Return (vA < vB))"
    using key_const[OF assms(6,7,12,8,9), of rrA rrB] t by simp
  have 1: "sortBlockLess shardA iA shardB iB =
           (if vA = vB
            then sortBlockLess_loop (ps shardA) bA rrA bB rrB [Suc idx..<length (byColumns bA)]
            else Some (vA < vB))"
    using sortBlockLess_at_first_decided[OF assms(1-5) n] k1 by simp
  let ?f = "flipDirection shardA"
  have f: "rowRefs ?f = rowRefs shardA" "blocks ?f = blocks shardA"
    "ps ?f = (ps shardA)\<lparr>isDesc := \<not> isDesc (ps shardA)\<rparr>"
    by (simp_all add: flipDirection_def)
  have d2: "keyIsDesc (ps ?f) idx = Some (\<not> desc)"
    unfolding f(3) by (rule keyIsDesc_flip[OF assms(12)])
  have ties: "\<forall>k<idx. sortBlockLess_key (ps ?f) bA rrA bB rrB k = Some NextKey"
  proof (intro allI impI)
    fix k assume "k < idx"
    then have "sortBlockLess_key (ps shardA) bA rrA bB rrB k = Some NextKey" using assms(5) by simp
    then show "sortBlockLess_key (ps ?f) bA rrA bB rrB k = Some NextKey"
      by (rule key_tie_flip) (simp add: f(3))
  qed
  have k2: "sortBlockLess_key (ps ?f) bA rrA bB rrB idx =
           Some (if vA = vB then NextKey else Return (vA < vB))"
    using key_const[OF assms(6,7) d2 assms(8,9), of rrA rrB] t by simp
  have a1: "at (rowRefs ?f) iA = Some rrA" using assms(1) by (simp add: f)
  have a3: "at (blocks ?f) (blockIdx rrA) = Some bA" using assms(3) by (simp add: f)
  have 2: "sortBlockLess ?f iA shardB iB =
           (if vA = vB
            then sortBlockLess_loop (ps ?f) bA rrA bB rrB [Suc idx..<length (byColumns bA)]
            else Some (vA < vB))"
    using sortBlockLess_at_first_decided[OF a1 assms(2) a3 assms(4) ties n] k2 by simp
  show ?thesis using 1 2 d2 by blast
qed

theorem const_fast_path_ignores_direction_witness:
  "keyIsDesc (ps (constShard ''a'')) 1 = Some True \<and>
   keyIsDesc (ps (flipDirection (constShard ''a''))) 1 = Some False \<and>
   sortBlockLess (constShard ''a'') 0 (constShard ''b'') 0 = Some True \<and>
   sortBlockLess (flipDirection (constShard ''a'')) 0 (constShard ''b'') 0 = Some True"
proof -
  let ?rr = "\<lparr>blockIdx = 0, rowIdx = 0\<rparr>"
  have d: "keyIsDesc (ps (constShard ''a'')) 1 = Some True"
    by (simp add: keyIsDesc_def constShard_def sortByHostKDesc_def at_def)
  have r: "at (rowRefs (constShard ''a'')) 0 = Some ?rr" "at (rowRefs (constShard ''b'')) 0 = Some ?rr"
    by (simp_all add: constShard_def at_def)
  have b: "at (blocks (constShard ''a'')) (blockIdx ?rr) = Some (constBlock ''a'')"
    "at (blocks (constShard ''b'')) (blockIdx ?rr) = Some (constBlock ''b'')"
    by (simp_all add: constShard_def at_def)
  have t: "\<forall>k<1. sortBlockLess_key (ps (constShard ''a'')) (constBlock ''a'') ?rr
                    (constBlock ''b'') ?rr k = Some NextKey"
    by (simp add: sortBlockLess_key_def keyIsDesc_def constShard_def sortByHostKDesc_def
        constBlock_def constColumn_def at_def)
  have c: "at (byColumns (constBlock ''a'')) 1 =
      Some \<lparr>col = constColumn ''k'' ''a'', i64Values = [0], f64Values = [NaN]\<rparr>"
    "at (byColumns (constBlock ''b'')) 1 =
      Some \<lparr>col = constColumn ''k'' ''b'', i64Values = [0], f64Values = [NaN]\<rparr>"
    by (simp_all add: constBlock_def at_def)
  have e: "isConst (col \<lparr>col = constColumn ''k'' ''a'', i64Values = [0], f64Values = [NaN::int float64]\<rparr>)"
    "isConst (col \<lparr>col = constColumn ''k'' ''b'', i64Values = [0], f64Values = [NaN::int float64]\<rparr>)"
    "encodedValues (col \<lparr>col = constColumn ''k'' ''a'', i64Values = [0], f64Values = [NaN::int float64]\<rparr>)
       = ''a'' # []"
    "encodedValues (col \<lparr>col = constColumn ''k'' ''b'', i64Values = [0], f64Values = [NaN::int float64]\<rparr>)
       = ''b'' # []"
    by (simp_all add: constColumn_def)
  have ab: "''a'' \<noteq> ''b''" "''a'' < ''b''" by simp_all
  from const_fast_path_ignores_direction[OF r b t c e d]
  have "sortBlockLess (constShard ''a'') 0 (constShard ''b'') 0 = Some (''a'' < ''b'')"
    "sortBlockLess (flipDirection (constShard ''a'')) 0 (constShard ''b'') 0 = Some (''a'' < ''b'')"
    "keyIsDesc (ps (flipDirection (constShard ''a''))) 1 = Some False"
    using ab(1) by simp_all
  then show ?thesis using d ab(2) by simp
qed

text \<open>
  Claim C10. \<open>sortBlockLess\<close> is asymmetric on shards with the same sort configuration:
  it never returns true for a pair of rows and also for the swapped pair. In particular
  it is irreflexive: a row is never less than itself.
\<close>

theorem sortBlockLess_asymmetric:
  "(ps shardA = ps shardB \<longrightarrow>
      \<not> (sortBlockLess shardA iA shardB iB = Some True \<and>
         sortBlockLess shardB iB shardA iA = Some True)) \<and>
   sortBlockLess shardA iA shardA iA \<noteq> Some True"
proof (intro conjI impI)
  assume "ps shardA = ps shardB"
  then show "\<not> (sortBlockLess shardA iA shardB iB = Some True \<and>
         sortBlockLess shardB iB shardA iA = Some True)"
    using sortBlockLess_asym[of shardA shardB iA iB] by blast
next
  show "sortBlockLess shardA iA shardA iA \<noteq> Some True"
    using sortBlockLess_asym[of shardA shardA iA iA] by blast
qed

definition exampleShard :: "pipeSort \<Rightarrow> string list \<Rightarrow> int pipeSortProcessorShard" where
  "exampleShard p vs =
     shard_writeBlock exampleExternals
       \<lparr>ps = p, blocks = [], rowRefs = [], rowRefNext = 0, stateSizeBudget = 1048576\<rparr>
       (exampleBlock ''n'' vs)"

lemmas example_defs = exampleShard_def shard_writeBlock_def sortByN_def exampleBlock_def
      getColumnByName_def stringColumn_def createInt64Values_def createFloat64Values_def
      exampleExternals_def getValues_def Let_def upt_rec
      tryParseInt64_def tryParseUint64_decimal_def isDigit_def decimalValue_def

lemmas less_defs = sortBlockLess_def sortBlockLess_refs_def sortBlockLess_key_def keyIsDesc_def
      at_def getI64ValueAtRow_def getF64ValueAtRow_def getValueAtRow_def isNaN_def

theorem sortBlockLess_asymmetric_witness:
  "ps (exampleShard sortByN [''9'', ''10'']) = ps (exampleShard sortByN [''9'', ''10'']) \<and>
   sortBlockLess (exampleShard sortByN [''9'', ''10'']) 0
                 (exampleShard sortByN [''9'', ''10'']) 1 = Some True \<and>
   sortBlockLess (exampleShard sortByN [''9'', ''10'']) 1
                 (exampleShard sortByN [''9'', ''10'']) 0 \<noteq> Some True"
proof -
  have l: "sortBlockLess (exampleShard sortByN [''9'', ''10'']) 0
                 (exampleShard sortByN [''9'', ''10'']) 1 = Some True"
    by (simp add: example_defs less_defs word_sless_alt)
  show ?thesis
    using sortBlockLess_asymmetric[of "exampleShard sortByN [''9'', ''10'']"
        "exampleShard sortByN [''9'', ''10'']" 0 1] l
    by blast
qed

section \<open>Claims about the budget and flush\<close>

lemma psp_flush_exhausted:
  "psp_stateSizeBudget psp \<le> 0 \<Longrightarrow>
     psp_flush ext stopCh psp = Some (Some (budgetError ext psp), [])"
  by (simp add: psp_flush_def)

lemma psp_flush_cancelled_at_entry:
  "psp_stateSizeBudget psp > 0 \<Longrightarrow> stopCh 0 \<Longrightarrow> psp_flush ext stopCh psp = Some (None, [])"
  by (simp add: psp_flush_def)

lemma psp_flush_no_error:
  assumes "psp_stateSizeBudget psp > 0" "psp_flush ext stopCh psp = Some r"
  shows "fst r = None"
  using assms
  by (auto simp: psp_flush_def Let_def split: if_splits option.splits prod.splits bool.splits)

text \<open>
  Claim C5. \<open>flush\<close> returns an error exactly when the global budget is not positive at
  its entry: then the result is the message \<open>cannot calculate [<sort clause>], since it
  requires more than <M>MB of memory\<close> with \<open>M = maxStateSize / (1 << 20)\<close>, whatever
  \<open>stopCh\<close> says; with a positive budget every result of \<open>flush\<close> is \<open>nil\<close>, and a
  \<open>stopCh\<close> found closed at the entry gives \<open>nil\<close> with nothing written.
\<close>

theorem flush_error_iff_budget_exhausted:
  "(psp_stateSizeBudget psp \<le> 0 \<longrightarrow>
      psp_flush ext stopCh psp =
        Some (Some (''cannot calculate ['' @ pipeSort_String ext (psp_ps psp) @
                    ''], since it requires more than '' @
                    formatInt (maxStateSize psp sdiv 1048576) @ ''MB of memory''), [])) \<and>
   (psp_stateSizeBudget psp > 0 \<longrightarrow>
      (\<forall>r. psp_flush ext stopCh psp = Some r \<longrightarrow> fst r = None)) \<and>
   (psp_stateSizeBudget psp > 0 \<and> stopCh 0 \<longrightarrow> psp_flush ext stopCh psp = Some (None, []))"
  using psp_flush_exhausted[of psp ext stopCh] psp_flush_no_error[of psp ext stopCh]
    psp_flush_cancelled_at_entry[of psp stopCh ext]
  by (auto simp: budgetError_def)

lemma sortShards_empty:
  assumes "\<forall>lt. sortSort ext lt [] = Some []" "\<forall>s\<in>set ss. rowRefs s = []"
  shows "sortShards ext ss = Some ss"
  using assms(2)
proof (induction ss)
  case Nil
  then show ?case by simp
next
  case (Cons s ss)
  have "sortShard ext s = Some s" using Cons.prems assms(1) by (simp add: sortShard_def)
  then show ?case using Cons by simp
qed

lemma psp_flush_no_rows:
  assumes "psp_stateSizeBudget psp > 0" "\<forall>s\<in>set (shards psp). rowRefs s = []"
    "\<forall>lt. sortSort ext lt [] = Some []"
  shows "psp_flush ext stopCh psp = Some (None, [])"
proof -
  have s: "sortShards ext (shards psp) = Some (shards psp)"
    by (rule sortShards_empty[OF assms(3,2)])
  have "filter (\<lambda>i. length (rowRefs (shards psp ! i)) > 0) [0..<length (shards psp)] = []"
    using assms(2) by (auto simp: filter_empty_conv)
  then show ?thesis using assms(1) s by (simp add: psp_flush_def)
qed

definition tinyExternals :: "int externals" where
  "tinyExternals = exampleExternals\<lparr>allowedStateSize := 1000000\<rparr>"

lemma formatNat_digit: "n < 10 \<Longrightarrow> formatNat n = [''0123456789'' ! n]"
  by (simp add: formatNat.simps)

lemma formatNat_99: "formatNat 99 = ''99''"
  by (simp add: formatNat.simps[of 99] formatNat_digit)

lemma ex_budgetError:
  "budgetError exampleExternals ((newPipeProcessor exampleExternals sortByN 1)\<lparr>psp_stateSizeBudget := - 1\<rparr>)
     = ''cannot calculate [sort by (n)], since it requires more than 99MB of memory''"
  by (simp add: budgetError_def pipeSort_String_def bySortField_String_def newPipeProcessor_def
      exampleExternals_def sortByN_def formatInt_def signed_divide_int_def formatNat_99)

lemma tiny_flush:
  "psp_flush tinyExternals (\<lambda>k. False) (newPipeProcessor tinyExternals sortByN 1) =
     Some (Some ''cannot calculate [sort by (n)], since it requires more than 0MB of memory'', [])"
  by (simp add: psp_flush_def budgetError_def pipeSort_String_def bySortField_String_def newPipeProcessor_def
      tinyExternals_def exampleExternals_def sortByN_def formatInt_def signed_divide_int_def formatNat_digit)

lemma stealBudget_enough:
  "at (shards psp) w = Some shard \<Longrightarrow> \<not> stateSizeBudget shard < 0 \<Longrightarrow>
     stealBudget ext w psp = Some (True, psp)"
  by (subst stealBudget.simps) simp

lemma stealBudget_refuse:
  "at (shards psp) w = Some shard \<Longrightarrow> stateSizeBudget shard < 0 \<Longrightarrow>
   psp_stateSizeBudget psp - stateSizeBudgetChunk ext < 0 \<Longrightarrow>
     stealBudget ext w psp =
       Some (False, psp\<lparr>psp_stateSizeBudget := psp_stateSizeBudget psp - stateSizeBudgetChunk ext,
                         cancelCalls := cancelCalls psp + (if psp_stateSizeBudget psp \<ge> 0 then 1 else 0)\<rparr>)"
  by (subst stealBudget.simps) (simp add: Let_def)

lemma stealBudget_credit:
  "at (shards psp) w = Some shard \<Longrightarrow> stateSizeBudget shard < 0 \<Longrightarrow>
   \<not> psp_stateSizeBudget psp - stateSizeBudgetChunk ext < 0 \<Longrightarrow>
     stealBudget ext w psp =
       stealBudget ext w
         (psp\<lparr>psp_stateSizeBudget := psp_stateSizeBudget psp - stateSizeBudgetChunk ext,
              shards := (shards psp)[w := shard\<lparr>stateSizeBudget := stateSizeBudget shard + stateSizeBudgetChunk ext\<rparr>]\<rparr>)"
  by (subst stealBudget.simps) (simp add: Let_def)

lemma at_update_same: "at xs i = Some x \<Longrightarrow> at (xs[i := y]) i = Some y"
  by (auto simp: at_def split: if_splits)

lemma at_update_id: "at xs i = Some x \<Longrightarrow> xs[i := x] = xs"
  by (auto simp: at_def split: if_splits)

lemma stealBudget_closed:
  assumes "stateSizeBudgetChunk ext > 0" "at (shards psp) w = Some shard"
  shows "\<exists>k::nat.
     (0 \<le> stateSizeBudget shard + int k * stateSizeBudgetChunk ext \<and>
      (stateSizeBudget shard < 0 \<longrightarrow> stateSizeBudget shard + int k * stateSizeBudgetChunk ext < stateSizeBudgetChunk ext) \<and>
      (stateSizeBudget shard \<ge> 0 \<longrightarrow> k = 0) \<and>
      (k > 0 \<longrightarrow> psp_stateSizeBudget psp - int k * stateSizeBudgetChunk ext \<ge> 0) \<and>
      stealBudget ext w psp =
        Some (True, psp\<lparr>psp_stateSizeBudget := psp_stateSizeBudget psp - int k * stateSizeBudgetChunk ext,
                        shards := (shards psp)[w := shard\<lparr>stateSizeBudget :=
                           stateSizeBudget shard + int k * stateSizeBudgetChunk ext\<rparr>]\<rparr>))
     \<or>
     (stateSizeBudget shard + int k * stateSizeBudgetChunk ext < 0 \<and>
      psp_stateSizeBudget psp - int k * stateSizeBudgetChunk ext - stateSizeBudgetChunk ext < 0 \<and>
      (k > 0 \<longrightarrow> psp_stateSizeBudget psp - int k * stateSizeBudgetChunk ext \<ge> 0) \<and>
      stealBudget ext w psp =
        Some (False, psp\<lparr>psp_stateSizeBudget :=
                          psp_stateSizeBudget psp - int k * stateSizeBudgetChunk ext - stateSizeBudgetChunk ext,
                        shards := (shards psp)[w := shard\<lparr>stateSizeBudget :=
                           stateSizeBudget shard + int k * stateSizeBudgetChunk ext\<rparr>],
                        cancelCalls := cancelCalls psp +
                          (if psp_stateSizeBudget psp - int k * stateSizeBudgetChunk ext \<ge> 0 then 1 else 0)\<rparr>))"
  using assms(2)
proof (induction "nat (- stateSizeBudget shard)" arbitrary: psp shard rule: less_induct)
  case less
  define c where "c = stateSizeBudgetChunk ext"
  define sb where "sb = stateSizeBudget shard"
  define g where "g = psp_stateSizeBudget psp"
  have cpos: "c > 0" using assms(1) c_def by simp
  note sh = less.prems
  show ?case
  proof (cases "sb < 0")
    case False
    have "stealBudget ext w psp = Some (True, psp)"
      using stealBudget_enough[OF sh] False sb_def by simp
    then show ?thesis
      using False sb_def at_update_id[OF sh]
      by (intro exI[of _ 0]) simp
  next
    case neg: True
    show ?thesis
    proof (cases "g - c < 0")
      case True
      have "stealBudget ext w psp =
         Some (False, psp\<lparr>psp_stateSizeBudget := g - c,
                         cancelCalls := cancelCalls psp + (if g \<ge> 0 then 1 else 0)\<rparr>)"
        using stealBudget_refuse[OF sh] neg True by (simp add: sb_def g_def c_def)
      then show ?thesis
        using neg True at_update_id[OF sh]
        by (intro exI[of _ 0]) (simp add: sb_def g_def c_def)
    next
      case False
      define shard1 where "shard1 = shard\<lparr>stateSizeBudget := sb + c\<rparr>"
      define psp1 where "psp1 = psp\<lparr>psp_stateSizeBudget := g - c, shards := (shards psp)[w := shard1]\<rparr>"
      have st: "stealBudget ext w psp = stealBudget ext w psp1"
        using stealBudget_credit[OF sh] neg False
        by (simp add: sb_def g_def c_def psp1_def shard1_def)
      have sh1: "at (shards psp1) w = Some shard1"
        using at_update_same[OF sh] by (simp add: psp1_def)
      have m: "nat (- stateSizeBudget shard1) < nat (- stateSizeBudget shard)"
        using neg cpos by (simp add: shard1_def sb_def)
      from less.hyps[OF m sh1]
      obtain k where k:
        "(0 \<le> stateSizeBudget shard1 + int k * c \<and>
          (stateSizeBudget shard1 < 0 \<longrightarrow> stateSizeBudget shard1 + int k * c < c) \<and>
          (stateSizeBudget shard1 \<ge> 0 \<longrightarrow> k = 0) \<and>
          (k > 0 \<longrightarrow> psp_stateSizeBudget psp1 - int k * c \<ge> 0) \<and>
          stealBudget ext w psp1 =
            Some (True, psp1\<lparr>psp_stateSizeBudget := psp_stateSizeBudget psp1 - int k * c,
                        shards := (shards psp1)[w := shard1\<lparr>stateSizeBudget :=
                           stateSizeBudget shard1 + int k * c\<rparr>]\<rparr>))
         \<or>
         (stateSizeBudget shard1 + int k * c < 0 \<and>
          psp_stateSizeBudget psp1 - int k * c - c < 0 \<and>
          (k > 0 \<longrightarrow> psp_stateSizeBudget psp1 - int k * c \<ge> 0) \<and>
          stealBudget ext w psp1 =
            Some (False, psp1\<lparr>psp_stateSizeBudget := psp_stateSizeBudget psp1 - int k * c - c,
                        shards := (shards psp1)[w := shard1\<lparr>stateSizeBudget :=
                           stateSizeBudget shard1 + int k * c\<rparr>],
                        cancelCalls := cancelCalls psp1 +
                          (if psp_stateSizeBudget psp1 - int k * c \<ge> 0 then 1 else 0)\<rparr>))"
        unfolding c_def by blast
      have a1: "stateSizeBudget shard1 + int k * c = sb + int (Suc k) * c"
        by (simp add: shard1_def algebra_simps)
      have a2: "psp_stateSizeBudget psp1 - int k * c = g - int (Suc k) * c"
        by (simp add: psp1_def algebra_simps)
      have r1: "psp1\<lparr>psp_stateSizeBudget := g - int (Suc k) * c,
                  shards := (shards psp1)[w := shard1\<lparr>stateSizeBudget := sb + int (Suc k) * c\<rparr>]\<rparr>
           = psp\<lparr>psp_stateSizeBudget := g - int (Suc k) * c,
                  shards := (shards psp)[w := shard\<lparr>stateSizeBudget := sb + int (Suc k) * c\<rparr>]\<rparr>"
        by (simp add: psp1_def shard1_def)
      have r2: "psp1\<lparr>psp_stateSizeBudget := g - int (Suc k) * c - c,
                  shards := (shards psp1)[w := shard1\<lparr>stateSizeBudget := sb + int (Suc k) * c\<rparr>],
                  cancelCalls := cancelCalls psp1 + (if g - int (Suc k) * c \<ge> 0 then 1 else 0)\<rparr>
           = psp\<lparr>psp_stateSizeBudget := g - int (Suc k) * c - c,
                  shards := (shards psp)[w := shard\<lparr>stateSizeBudget := sb + int (Suc k) * c\<rparr>],
                  cancelCalls := cancelCalls psp + (if g - int (Suc k) * c \<ge> 0 then 1 else 0)\<rparr>"
        by (simp add: psp1_def shard1_def)
      have g1: "g - int (Suc k) * c \<ge> 0 \<or> k > 0 \<or> True" by simp
      from k show ?thesis
      proof
        assume A: "0 \<le> stateSizeBudget shard1 + int k * c \<and>
          (stateSizeBudget shard1 < 0 \<longrightarrow> stateSizeBudget shard1 + int k * c < c) \<and>
          (stateSizeBudget shard1 \<ge> 0 \<longrightarrow> k = 0) \<and>
          (k > 0 \<longrightarrow> psp_stateSizeBudget psp1 - int k * c \<ge> 0) \<and>
          stealBudget ext w psp1 =
            Some (True, psp1\<lparr>psp_stateSizeBudget := psp_stateSizeBudget psp1 - int k * c,
                        shards := (shards psp1)[w := shard1\<lparr>stateSizeBudget :=
                           stateSizeBudget shard1 + int k * c\<rparr>]\<rparr>)"
        have b1: "0 \<le> sb + int (Suc k) * c" using A a1 by simp
        have b2: "sb + int (Suc k) * c < c"
        proof (cases "stateSizeBudget shard1 < 0")
          case True
          then show ?thesis using A a1 by simp
        next
          case False
          then have "k = 0" using A by simp
          then show ?thesis using neg by (simp add: algebra_simps)
        qed
        have b3: "g - int (Suc k) * c \<ge> 0"
        proof (cases "k > 0")
          case True
          then show ?thesis using A a2 by simp
        next
          case nk: False
          then show ?thesis using False by (simp add: algebra_simps)
        qed
        have b4: "stealBudget ext w psp =
            Some (True, psp\<lparr>psp_stateSizeBudget := g - int (Suc k) * c,
                  shards := (shards psp)[w := shard\<lparr>stateSizeBudget := sb + int (Suc k) * c\<rparr>]\<rparr>)"
          using A st by (simp add: psp1_def shard1_def algebra_simps)
        show ?thesis
          apply (rule exI[of _ "Suc k"])
          apply (rule disjI1)
          using b1 b2 b3 b4 neg unfolding sb_def g_def c_def by simp
      next
        assume B: "stateSizeBudget shard1 + int k * c < 0 \<and>
          psp_stateSizeBudget psp1 - int k * c - c < 0 \<and>
          (k > 0 \<longrightarrow> psp_stateSizeBudget psp1 - int k * c \<ge> 0) \<and>
          stealBudget ext w psp1 =
            Some (False, psp1\<lparr>psp_stateSizeBudget := psp_stateSizeBudget psp1 - int k * c - c,
                        shards := (shards psp1)[w := shard1\<lparr>stateSizeBudget :=
                           stateSizeBudget shard1 + int k * c\<rparr>],
                        cancelCalls := cancelCalls psp1 +
                          (if psp_stateSizeBudget psp1 - int k * c \<ge> 0 then 1 else 0)\<rparr>)"
        have c0: "cancelCalls psp1 = cancelCalls psp" by (simp add: psp1_def)
        have b1: "sb + int (Suc k) * c < 0" using B a1 by simp
        have b2: "g - int (Suc k) * c - c < 0" using B a2 by simp
        have b3: "g - int (Suc k) * c \<ge> 0"
        proof (cases "k > 0")
          case True
          then show ?thesis using B a2 by simp
        next
          case nk: False
          then show ?thesis using False by (simp add: algebra_simps)
        qed
        have b4: "stealBudget ext w psp =
            Some (False, psp\<lparr>psp_stateSizeBudget := g - int (Suc k) * c - c,
                  shards := (shards psp)[w := shard\<lparr>stateSizeBudget := sb + int (Suc k) * c\<rparr>],
                  cancelCalls := cancelCalls psp + (if g - int (Suc k) * c \<ge> 0 then 1 else 0)\<rparr>)"
          using B st by (simp add: psp1_def shard1_def algebra_simps)
        show ?thesis
          apply (rule exI[of _ "Suc k"])
          apply (rule disjI2)
          using b1 b2 b3 b4 unfolding sb_def g_def c_def by simp
      qed
    qed
  qed
qed


lemma psp_writeBlock_negative:
  assumes "length (timestamps b) \<noteq> 0" and "at (shards psp) w = Some shard"
    and "stateSizeBudget shard < 0" and "stateSizeBudgetChunk ext > 0"
  shows "\<exists>k::nat.
     (0 < k \<and>
      0 \<le> stateSizeBudget shard + int k * stateSizeBudgetChunk ext \<and>
      stateSizeBudget shard + int k * stateSizeBudgetChunk ext < stateSizeBudgetChunk ext \<and>
      psp_stateSizeBudget psp - int k * stateSizeBudgetChunk ext \<ge> 0 \<and>
      psp_writeBlock ext psp w b =
        Some (psp\<lparr>psp_stateSizeBudget := psp_stateSizeBudget psp - int k * stateSizeBudgetChunk ext,
                  shards := (shards psp)[w := shard_writeBlock ext
                     (shard\<lparr>stateSizeBudget :=
                        stateSizeBudget shard + int k * stateSizeBudgetChunk ext\<rparr>) b]\<rparr>))
     \<or>
     (stateSizeBudget shard + int k * stateSizeBudgetChunk ext < 0 \<and>
      psp_stateSizeBudget psp - int k * stateSizeBudgetChunk ext - stateSizeBudgetChunk ext < 0 \<and>
      (k > 0 \<longrightarrow> psp_stateSizeBudget psp - int k * stateSizeBudgetChunk ext \<ge> 0) \<and>
      psp_writeBlock ext psp w b =
        Some (psp\<lparr>psp_stateSizeBudget :=
                    psp_stateSizeBudget psp - int k * stateSizeBudgetChunk ext - stateSizeBudgetChunk ext,
                  shards := (shards psp)[w := shard\<lparr>stateSizeBudget :=
                     stateSizeBudget shard + int k * stateSizeBudgetChunk ext\<rparr>],
                  cancelCalls := cancelCalls psp +
                    (if psp_stateSizeBudget psp - int k * stateSizeBudgetChunk ext \<ge> 0 then 1 else 0)\<rparr>))"
proof -
  from stealBudget_closed[OF assms(4,2)] obtain k where k:
    "(0 \<le> stateSizeBudget shard + int k * stateSizeBudgetChunk ext \<and>
      (stateSizeBudget shard < 0 \<longrightarrow> stateSizeBudget shard + int k * stateSizeBudgetChunk ext < stateSizeBudgetChunk ext) \<and>
      (stateSizeBudget shard \<ge> 0 \<longrightarrow> k = 0) \<and>
      (k > 0 \<longrightarrow> psp_stateSizeBudget psp - int k * stateSizeBudgetChunk ext \<ge> 0) \<and>
      stealBudget ext w psp =
        Some (True, psp\<lparr>psp_stateSizeBudget := psp_stateSizeBudget psp - int k * stateSizeBudgetChunk ext,
                        shards := (shards psp)[w := shard\<lparr>stateSizeBudget :=
                           stateSizeBudget shard + int k * stateSizeBudgetChunk ext\<rparr>]\<rparr>))
     \<or>
     (stateSizeBudget shard + int k * stateSizeBudgetChunk ext < 0 \<and>
      psp_stateSizeBudget psp - int k * stateSizeBudgetChunk ext - stateSizeBudgetChunk ext < 0 \<and>
      (k > 0 \<longrightarrow> psp_stateSizeBudget psp - int k * stateSizeBudgetChunk ext \<ge> 0) \<and>
      stealBudget ext w psp =
        Some (False, psp\<lparr>psp_stateSizeBudget :=
                          psp_stateSizeBudget psp - int k * stateSizeBudgetChunk ext - stateSizeBudgetChunk ext,
                        shards := (shards psp)[w := shard\<lparr>stateSizeBudget :=
                           stateSizeBudget shard + int k * stateSizeBudgetChunk ext\<rparr>],
                        cancelCalls := cancelCalls psp +
                          (if psp_stateSizeBudget psp - int k * stateSizeBudgetChunk ext \<ge> 0 then 1 else 0)\<rparr>))"
    by blast
  have wlen: "w < length (shards psp)" using at_Some[OF assms(2)] by simp
  from k show ?thesis
  proof
    assume A: "0 \<le> stateSizeBudget shard + int k * stateSizeBudgetChunk ext \<and>
      (stateSizeBudget shard < 0 \<longrightarrow> stateSizeBudget shard + int k * stateSizeBudgetChunk ext < stateSizeBudgetChunk ext) \<and>
      (stateSizeBudget shard \<ge> 0 \<longrightarrow> k = 0) \<and>
      (k > 0 \<longrightarrow> psp_stateSizeBudget psp - int k * stateSizeBudgetChunk ext \<ge> 0) \<and>
      stealBudget ext w psp =
        Some (True, psp\<lparr>psp_stateSizeBudget := psp_stateSizeBudget psp - int k * stateSizeBudgetChunk ext,
                        shards := (shards psp)[w := shard\<lparr>stateSizeBudget :=
                           stateSizeBudget shard + int k * stateSizeBudgetChunk ext\<rparr>]\<rparr>)"
    have kpos: "0 < k"
    proof (rule ccontr)
      assume "\<not> 0 < k"
      then have "k = 0" by simp
      then show False using A assms(3) by simp
    qed
    have w: "psp_writeBlock ext psp w b =
        Some (psp\<lparr>psp_stateSizeBudget := psp_stateSizeBudget psp - int k * stateSizeBudgetChunk ext,
                  shards := (shards psp)[w := shard_writeBlock ext
                     (shard\<lparr>stateSizeBudget :=
                        stateSizeBudget shard + int k * stateSizeBudgetChunk ext\<rparr>) b]\<rparr>)"
      using A assms(1) wlen by (simp add: psp_writeBlock_def at_def)
    show ?thesis
      apply (rule exI[of _ k])
      apply (rule disjI1)
      using A kpos w assms(3) by simp
  next
    assume B: "stateSizeBudget shard + int k * stateSizeBudgetChunk ext < 0 \<and>
      psp_stateSizeBudget psp - int k * stateSizeBudgetChunk ext - stateSizeBudgetChunk ext < 0 \<and>
      (k > 0 \<longrightarrow> psp_stateSizeBudget psp - int k * stateSizeBudgetChunk ext \<ge> 0) \<and>
      stealBudget ext w psp =
        Some (False, psp\<lparr>psp_stateSizeBudget :=
                          psp_stateSizeBudget psp - int k * stateSizeBudgetChunk ext - stateSizeBudgetChunk ext,
                        shards := (shards psp)[w := shard\<lparr>stateSizeBudget :=
                           stateSizeBudget shard + int k * stateSizeBudgetChunk ext\<rparr>],
                        cancelCalls := cancelCalls psp +
                          (if psp_stateSizeBudget psp - int k * stateSizeBudgetChunk ext \<ge> 0 then 1 else 0)\<rparr>)"
    have w: "psp_writeBlock ext psp w b =
        Some (psp\<lparr>psp_stateSizeBudget :=
                    psp_stateSizeBudget psp - int k * stateSizeBudgetChunk ext - stateSizeBudgetChunk ext,
                  shards := (shards psp)[w := shard\<lparr>stateSizeBudget :=
                     stateSizeBudget shard + int k * stateSizeBudgetChunk ext\<rparr>],
                  cancelCalls := cancelCalls psp +
                    (if psp_stateSizeBudget psp - int k * stateSizeBudgetChunk ext \<ge> 0 then 1 else 0)\<rparr>)"
      using B assms(1) by (simp add: psp_writeBlock_def)
    show ?thesis
      apply (rule exI[of _ k])
      apply (rule disjI2)
      using B w by simp
  qed
qed

definition smallExternals :: "int externals" where
  "smallExternals = exampleExternals\<lparr>allowedStateSize := 2621440\<rparr>"

definition bigBlock :: blockResult where
  "bigBlock = (exampleBlock ''n'' [''9''])\<lparr>sizeBytes := 3000000\<rparr>"

definition afterBigBlock :: "int pipeSortProcessor" where
  "afterBigBlock =
     \<lparr>psp_ps = sortByN,
      shards = [\<lparr>ps = sortByN,
                 blocks = [\<lparr>br = bigBlock,
                            byColumns = [\<lparr>col = stringColumn ''n'' [''9''],
                                          i64Values = [9], f64Values = [Float 9]\<rparr>],
                            otherColumns = []\<rparr>],
                 rowRefs = [\<lparr>blockIdx = 0, rowIdx = 0\<rparr>],
                 rowRefNext = 0,
                 stateSizeBudget = - 1951568\<rparr>],
      maxStateSize = 1572864,
      psp_stateSizeBudget = 1572864,
      cancelCalls = 0\<rparr>"

lemma afterBigBlock_reached:
  "psp_writeBlock smallExternals (newPipeProcessor smallExternals sortByN 1) 0 bigBlock = Some afterBigBlock"
proof -
  have s: "stealBudget smallExternals 0 (newPipeProcessor smallExternals sortByN 1)
      = Some (True, newPipeProcessor smallExternals sortByN 1)"
    by (rule stealBudget_enough[where shard = "\<lparr>ps = sortByN, blocks = [], rowRefs = [], rowRefNext = 0,
          stateSizeBudget = 1048576\<rparr>"])
       (simp_all add: newPipeProcessor_def smallExternals_def exampleExternals_def at_def)
  show ?thesis
    unfolding psp_writeBlock_def s
    by (simp add: newPipeProcessor_def smallExternals_def bigBlock_def afterBigBlock_def at_def
        example_defs)
qed

theorem flush_error_iff_budget_exhausted_witness:
  "psp_flush exampleExternals (\<lambda>k. False)
       ((newPipeProcessor exampleExternals sortByN 1)\<lparr>psp_stateSizeBudget := - 1\<rparr>) =
     Some (Some ''cannot calculate [sort by (n)], since it requires more than 99MB of memory'', []) \<and>
   psp_stateSizeBudget (newPipeProcessor exampleExternals sortByN 1) > 0 \<and>
   psp_flush exampleExternals (\<lambda>k. True) (newPipeProcessor exampleExternals sortByN 1) = Some (None, [])"
proof -
  have a: "psp_stateSizeBudget ((newPipeProcessor exampleExternals sortByN 1)\<lparr>psp_stateSizeBudget := - 1\<rparr>) \<le> 0"
    by simp
  have b: "psp_stateSizeBudget (newPipeProcessor exampleExternals sortByN 1) > 0"
    by (simp add: newPipeProcessor_def exampleExternals_def)
  have m: "''cannot calculate ['' @ pipeSort_String exampleExternals
              (psp_ps ((newPipeProcessor exampleExternals sortByN 1)\<lparr>psp_stateSizeBudget := - 1\<rparr>)) @
           ''], since it requires more than '' @
           formatInt (maxStateSize ((newPipeProcessor exampleExternals sortByN 1)\<lparr>psp_stateSizeBudget := - 1\<rparr>)
                      sdiv 1048576) @ ''MB of memory''
         = ''cannot calculate [sort by (n)], since it requires more than 99MB of memory''"
    using ex_budgetError by (simp add: budgetError_def)
  show ?thesis
    using flush_error_iff_budget_exhausted[of
        "(newPipeProcessor exampleExternals sortByN 1)\<lparr>psp_stateSizeBudget := - 1\<rparr>"
        exampleExternals "\<lambda>k. False"]
      flush_error_iff_budget_exhausted[of "newPipeProcessor exampleExternals sortByN 1"
        exampleExternals "\<lambda>k. True"]
      a b
    unfolding m by simp
qed

text \<open>
  Claim C8, as the code has it. A \<open>writeBlock\<close> call with a block of zero timestamps
  returns the processor unchanged. When no shard holds a row and the global budget is
  positive, \<open>flush\<close> returns \<open>nil\<close> and writes no block (\<open>sort.Sort\<close> of an empty slice
  returning it). With a budget that is not positive \<open>flush\<close> returns the budget error
  also when nothing was ingested: the check of the budget comes first.
\<close>

theorem empty_block_dropped_and_empty_flush:
  "(length (timestamps b) = 0 \<longrightarrow> psp_writeBlock ext psp workerID b = Some psp) \<and>
   (psp_stateSizeBudget psp > 0 \<and> (\<forall>s\<in>set (shards psp). rowRefs s = []) \<and>
    (\<forall>lt. sortSort ext lt [] = Some []) \<longrightarrow>
      psp_flush ext stopCh psp = Some (None, []))"
  using psp_flush_no_rows[of psp ext stopCh]
  by (simp add: psp_writeBlock_def)

theorem empty_block_dropped_and_empty_flush_witness:
  "psp_writeBlock exampleExternals (newPipeProcessor exampleExternals sortByN 2) 1
       \<lparr>timestamps = [], columns = [stringColumn ''n'' []], sizeBytes = 0\<rparr>
     = Some (newPipeProcessor exampleExternals sortByN 2) \<and>
   psp_flush exampleExternals (\<lambda>k. False) (newPipeProcessor exampleExternals sortByN 2) = Some (None, [])"
proof -
  have b: "psp_stateSizeBudget (newPipeProcessor exampleExternals sortByN 2) > 0"
    by (simp add: newPipeProcessor_def exampleExternals_def)
  have r: "\<forall>s\<in>set (shards (newPipeProcessor exampleExternals sortByN 2)). rowRefs s = []"
    by (simp add: newPipeProcessor_def Let_def)
  have s: "\<forall>lt. sortSort exampleExternals lt [] = Some []"
    by (simp add: exampleExternals_def)
  show ?thesis
    using empty_block_dropped_and_empty_flush[of
        "\<lparr>timestamps = [], columns = [stringColumn ''n'' []], sizeBytes = 0\<rparr>"
        exampleExternals "newPipeProcessor exampleExternals sortByN 2" 1 "\<lambda>k. False"] b r s
    by simp
qed

theorem empty_flush_counterexample:
  "map rowRefs (shards (newPipeProcessor tinyExternals sortByN 1)) = [[]] \<and>
   psp_flush tinyExternals (\<lambda>k. False) (newPipeProcessor tinyExternals sortByN 1) =
     Some (Some ''cannot calculate [sort by (n)], since it requires more than 0MB of memory'', [])"
  using tiny_flush by (simp add: newPipeProcessor_def Let_def)

definition refusedAfterCredit :: "int pipeSortProcessor" where
  "refusedAfterCredit =
     afterBigBlock\<lparr>psp_stateSizeBudget := - 524288,
                   shards := [(shards afterBigBlock ! 0)\<lparr>stateSizeBudget := - 902992\<rparr>],
                   cancelCalls := 1\<rparr>"

lemma afterBigBlock_shard:
  "at (shards afterBigBlock) 0 = Some (shards afterBigBlock ! 0)"
  by (simp add: afterBigBlock_def at_def)

lemma refusedAfterCredit_reached:
  "psp_writeBlock smallExternals afterBigBlock 0 (exampleBlock ''n'' [''2'']) = Some refusedAfterCredit"
proof -
  define psp1 where "psp1 = afterBigBlock\<lparr>psp_stateSizeBudget := 524288,
       shards := [(shards afterBigBlock ! 0)\<lparr>stateSizeBudget := - 902992\<rparr>]\<rparr>"
  have c: "stateSizeBudgetChunk smallExternals = 1048576"
    by (simp add: smallExternals_def exampleExternals_def)
  have 1: "stealBudget smallExternals 0 afterBigBlock = stealBudget smallExternals 0 psp1"
    using stealBudget_credit[OF afterBigBlock_shard, of smallExternals]
    by (simp add: c psp1_def afterBigBlock_def)
  have sh1: "at (shards psp1) 0 = Some ((shards afterBigBlock ! 0)\<lparr>stateSizeBudget := - 902992\<rparr>)"
    by (simp add: psp1_def at_def)
  have 2: "stealBudget smallExternals 0 psp1 = Some (False, refusedAfterCredit)"
    using stealBudget_refuse[OF sh1, of smallExternals]
    by (simp add: c psp1_def afterBigBlock_def refusedAfterCredit_def)
  show ?thesis
    unfolding psp_writeBlock_def 1 2 by (simp add: exampleBlock_def)
qed

text \<open>
  Claim C4, as the code has it. A \<open>writeBlock\<close> call with an empty block returns before
  the budget is looked at. On a call with a non-empty block, a negative local budget of
  the shard and a positive chunk, the loop subtracts chunks from the global budget, \<open>k\<close>
  of them leaving it non-negative and being credited to the shard. Either the local
  budget becomes non-negative and the block is ingested, or a further subtraction makes
  the global budget negative: then the block is not ingested, the shard keeps its blocks
  and row references and the \<open>k\<close> chunks credited so far, and \<open>cancel\<close> is called exactly
  when that last subtraction started from a non-negative global budget.
\<close>

theorem writeBlock_negative_budget:
  assumes "length (timestamps b) \<noteq> 0" and "at (shards psp) w = Some shard"
    and "stateSizeBudget shard < 0" and "stateSizeBudgetChunk ext > 0"
  shows "\<exists>k::nat.
     (0 < k \<and>
      0 \<le> stateSizeBudget shard + int k * stateSizeBudgetChunk ext \<and>
      stateSizeBudget shard + int k * stateSizeBudgetChunk ext < stateSizeBudgetChunk ext \<and>
      psp_stateSizeBudget psp - int k * stateSizeBudgetChunk ext \<ge> 0 \<and>
      psp_writeBlock ext psp w b =
        Some (psp\<lparr>psp_stateSizeBudget := psp_stateSizeBudget psp - int k * stateSizeBudgetChunk ext,
                  shards := (shards psp)[w := shard_writeBlock ext
                     (shard\<lparr>stateSizeBudget :=
                        stateSizeBudget shard + int k * stateSizeBudgetChunk ext\<rparr>) b]\<rparr>))
     \<or>
     (stateSizeBudget shard + int k * stateSizeBudgetChunk ext < 0 \<and>
      psp_stateSizeBudget psp - int k * stateSizeBudgetChunk ext - stateSizeBudgetChunk ext < 0 \<and>
      (k > 0 \<longrightarrow> psp_stateSizeBudget psp - int k * stateSizeBudgetChunk ext \<ge> 0) \<and>
      psp_writeBlock ext psp w b =
        Some (psp\<lparr>psp_stateSizeBudget :=
                    psp_stateSizeBudget psp - int k * stateSizeBudgetChunk ext - stateSizeBudgetChunk ext,
                  shards := (shards psp)[w := shard\<lparr>stateSizeBudget :=
                     stateSizeBudget shard + int k * stateSizeBudgetChunk ext\<rparr>],
                  cancelCalls := cancelCalls psp +
                    (if psp_stateSizeBudget psp - int k * stateSizeBudgetChunk ext \<ge> 0 then 1 else 0)\<rparr>))"
  by (rule psp_writeBlock_negative[OF assms])

theorem writeBlock_negative_budget_witness:
  "\<exists>k::nat.
     (0 < k \<and> 0 \<le> - 1951568 + int k * 1048576 \<and> - 1951568 + int k * 1048576 < 1048576 \<and>
      1572864 - int k * 1048576 \<ge> (0::int) \<and>
      psp_writeBlock smallExternals afterBigBlock 0 (exampleBlock ''n'' [''2'']) =
        Some (afterBigBlock\<lparr>psp_stateSizeBudget := 1572864 - int k * 1048576,
                  shards := (shards afterBigBlock)[0 := shard_writeBlock smallExternals
                     ((shards afterBigBlock ! 0)\<lparr>stateSizeBudget := - 1951568 + int k * 1048576\<rparr>)
                     (exampleBlock ''n'' [''2''])]\<rparr>))
     \<or>
     (- 1951568 + int k * 1048576 < 0 \<and> 1572864 - int k * 1048576 - 1048576 < (0::int) \<and>
      psp_writeBlock smallExternals afterBigBlock 0 (exampleBlock ''n'' [''2'']) =
        Some (afterBigBlock\<lparr>psp_stateSizeBudget := 1572864 - int k * 1048576 - 1048576,
                  shards := (shards afterBigBlock)[0 :=
                     (shards afterBigBlock ! 0)\<lparr>stateSizeBudget := - 1951568 + int k * 1048576\<rparr>],
                  cancelCalls := cancelCalls afterBigBlock +
                    (if 1572864 - int k * 1048576 \<ge> 0 then 1 else 0)\<rparr>))"
proof -
  have n: "length (timestamps (exampleBlock ''n'' [''2''])) \<noteq> 0" by (simp add: exampleBlock_def)
  have neg: "stateSizeBudget (shards afterBigBlock ! 0) < 0" by (simp add: afterBigBlock_def)
  have c: "stateSizeBudgetChunk smallExternals > 0"
    by (simp add: smallExternals_def exampleExternals_def)
  have e: "stateSizeBudgetChunk smallExternals = 1048576"
    "stateSizeBudget (shards afterBigBlock ! 0) = - 1951568"
    "psp_stateSizeBudget afterBigBlock = 1572864"
    by (simp_all add: smallExternals_def exampleExternals_def afterBigBlock_def)
  from writeBlock_negative_budget[OF n afterBigBlock_shard neg c]
  show ?thesis unfolding e by blast
qed

theorem writeBlock_negative_budget_counterexample:
  "psp_writeBlock smallExternals (newPipeProcessor smallExternals sortByN 1) 0 bigBlock = Some afterBigBlock \<and>
   stateSizeBudget (shards afterBigBlock ! 0) = - 1951568 \<and>
   psp_writeBlock smallExternals afterBigBlock 0 \<lparr>timestamps = [], columns = [], sizeBytes = 0\<rparr>
     = Some afterBigBlock \<and>
   psp_writeBlock smallExternals afterBigBlock 0 (exampleBlock ''n'' [''2'']) = Some refusedAfterCredit \<and>
   blocks (shards refusedAfterCredit ! 0) = blocks (shards afterBigBlock ! 0) \<and>
   stateSizeBudget (shards refusedAfterCredit ! 0) = - 902992 \<and>
   shards refusedAfterCredit \<noteq> shards afterBigBlock"
  using afterBigBlock_reached refusedAfterCredit_reached
  by (simp add: psp_writeBlock_def refusedAfterCredit_def afterBigBlock_def)

section \<open>Well-formed shards\<close>

text \<open>
  What the comparator relies on. A block is well formed when its const columns carry
  their value (\<open>encodedValues\<close> is not empty). A key column of a stored block is well
  formed when, not being a time column, its two arrays have the length that
  \<open>getI64ValueAtRow\<close> and \<open>getF64ValueAtRow\<close> index: the length of \<open>encodedValues\<close> for a
  const column, the number of rows otherwise. A shard is well formed when its blocks
  are, each with one key column per sort key (one in all when sorting by all columns),
  and its row references point into its blocks.
\<close>

definition block_ok :: "blockResult \<Rightarrow> bool" where
  "block_ok b = list_all (\<lambda>cl. isConst cl \<longrightarrow> encodedValues cl \<noteq> []) (columns b)"

definition byColumn_ok :: "nat \<Rightarrow> 'f sortBlockByColumn \<Rightarrow> bool" where
  "byColumn_ok n bc =
     ((isConst (col bc) \<longrightarrow> encodedValues (col bc) \<noteq> []) \<and>
      (\<not> isTime (col bc) \<longrightarrow>
         (if isConst (col bc)
          then length (i64Values bc) = length (encodedValues (col bc)) \<and>
               length (f64Values bc) = length (encodedValues (col bc))
          else length (i64Values bc) = n \<and> length (f64Values bc) = n)))"

definition sortBlock_ok :: "pipeSort \<Rightarrow> 'f sortBlock \<Rightarrow> bool" where
  "sortBlock_ok p sb =
     (length (byColumns sb) = (if length (byFields p) = 0 then 1 else length (byFields p)) \<and>
      list_all (byColumn_ok (length (timestamps (br sb)))) (byColumns sb))"

definition shard_ok :: "'f pipeSortProcessorShard \<Rightarrow> bool" where
  "shard_ok shard =
     (list_all (sortBlock_ok (ps shard)) (blocks shard) \<and>
      list_all (\<lambda>rr. blockIdx rr < length (blocks shard) \<and>
                      rowIdx rr < length (timestamps (br (blocks shard ! blockIdx rr))))
        (rowRefs shard))"

lemma getColumnByName_const:
  "block_ok b \<Longrightarrow> isConst (getColumnByName b n) \<Longrightarrow> encodedValues (getColumnByName b n) \<noteq> []"
proof -
  assume ok: "block_ok b" and c: "isConst (getColumnByName b n)"
  show ?thesis
  proof (cases "find (\<lambda>cl. name cl = n) (columns b)")
    case None
    then show ?thesis by (simp add: getColumnByName_def)
  next
    case (Some cl)
    then have "cl \<in> set (columns b)" by (auto simp: find_Some_iff)
    then have "isConst cl \<longrightarrow> encodedValues cl \<noteq> []"
      using ok by (simp add: block_ok_def list_all_iff)
    then show ?thesis using c Some by (simp add: getColumnByName_def)
  qed
qed

lemma createInt64Values_fst: "length (fst (createInt64Values ext shard vs)) = length vs"
  by (simp add: createInt64Values_def Let_def)

lemma createFloat64Values_fst: "length (fst (createFloat64Values ext shard vs)) = length vs"
  by (simp add: createFloat64Values_def Let_def)

lemma createInt64Values_snd:
  "snd (createInt64Values ext shard vs) =
     shard\<lparr>stateSizeBudget := stateSizeBudget shard - int (length vs) * sizeofInt64 ext\<rparr>"
  by (simp add: createInt64Values_def Let_def)

lemma createFloat64Values_snd:
  "snd (createFloat64Values ext shard vs) =
     shard\<lparr>stateSizeBudget := stateSizeBudget shard - int (length vs) * sizeofFloat64 ext\<rparr>"
  by (simp add: createFloat64Values_def Let_def)

text \<open>The two branches of the loop of \<open>collectByColumns\<close>.\<close>

lemma collectByColumns_time:
  assumes "isTime (getColumnByName b (bf_name bf))"
  shows "collectByColumns ext b (bf # bfs) shard =
     (\<lparr>col = getColumnByName b (bf_name bf), i64Values = [], f64Values = []\<rparr>
        # fst (collectByColumns ext b bfs shard),
      snd (collectByColumns ext b bfs shard))"
  using assms by (simp add: Let_def split: prod.splits)

definition keyValues :: "blockResult \<Rightarrow> bySortField \<Rightarrow> string list" where
  "keyValues b bf =
     (if isConst (getColumnByName b (bf_name bf))
      then encodedValues (getColumnByName b (bf_name bf))
      else getValues (getColumnByName b (bf_name bf)) b)"

lemma collectByColumns_values:
  assumes "\<not> isTime (getColumnByName b (bf_name bf))"
  shows "collectByColumns ext b (bf # bfs) shard =
     (\<lparr>col = getColumnByName b (bf_name bf),
       i64Values = fst (createInt64Values ext shard (keyValues b bf)),
       f64Values = fst (createFloat64Values ext
          (snd (createInt64Values ext shard (keyValues b bf))) (keyValues b bf))\<rparr>
        # fst (collectByColumns ext b bfs
            (snd (createFloat64Values ext
              (snd (createInt64Values ext shard (keyValues b bf))) (keyValues b bf)))),
      snd (collectByColumns ext b bfs
            (snd (createFloat64Values ext
              (snd (createInt64Values ext shard (keyValues b bf))) (keyValues b bf)))))"
  using assms by (simp add: Let_def keyValues_def split: prod.splits)

text \<open>What \<open>collectByColumns\<close> changes of the shard is its budget only.\<close>

lemma collectByColumns_shard:
  "ps (snd (collectByColumns ext b bfs shard)) = ps shard \<and>
   blocks (snd (collectByColumns ext b bfs shard)) = blocks shard \<and>
   rowRefs (snd (collectByColumns ext b bfs shard)) = rowRefs shard \<and>
   rowRefNext (snd (collectByColumns ext b bfs shard)) = rowRefNext shard"
proof (induction bfs arbitrary: shard)
  case Nil
  then show ?case by simp
next
  case (Cons bf bfs)
  show ?case
  proof (cases "isTime (getColumnByName b (bf_name bf))")
    case True
    show ?thesis unfolding collectByColumns_time[OF True] using Cons.IH[of shard] by simp
  next
    case False
    show ?thesis unfolding collectByColumns_values[OF False]
      using Cons.IH[of "snd (createFloat64Values ext
              (snd (createInt64Values ext shard (keyValues b bf))) (keyValues b bf))"]
      by (simp add: createInt64Values_snd createFloat64Values_snd)
  qed
qed

lemma collectByColumns_ok:
  assumes "block_ok b"
  shows "length (fst (collectByColumns ext b bfs shard)) = length bfs \<and>
         list_all (byColumn_ok (length (timestamps b))) (fst (collectByColumns ext b bfs shard)) \<and>
         list_all (\<lambda>bc. isTime (col bc) \<longrightarrow> i64Values bc = [] \<and> f64Values bc = [])
           (fst (collectByColumns ext b bfs shard))"
proof (induction bfs arbitrary: shard)
  case Nil
  then show ?case by simp
next
  case (Cons bf bfs)
  define cl where "cl = getColumnByName b (bf_name bf)"
  have cc: "isConst cl \<Longrightarrow> encodedValues cl \<noteq> []"
    using getColumnByName_const[OF assms] cl_def by simp
  show ?case
  proof (cases "isTime cl")
    case True
    then have t: "isTime (getColumnByName b (bf_name bf))" by (simp add: cl_def)
    have "byColumn_ok (length (timestamps b)) \<lparr>col = cl, i64Values = [], f64Values = []\<rparr>"
      using True cc by (simp add: byColumn_ok_def)
    then show ?thesis unfolding collectByColumns_time[OF t] using Cons.IH[of shard]
      by (simp add: cl_def)
  next
    case False
    then have t: "\<not> isTime (getColumnByName b (bf_name bf))" by (simp add: cl_def)
    have lv: "\<not> isConst cl \<Longrightarrow> length (keyValues b bf) = length (timestamps b)"
      by (simp add: keyValues_def getValues_def cl_def)
    have lc: "isConst cl \<Longrightarrow> keyValues b bf = encodedValues cl" by (simp add: keyValues_def cl_def)
    have ok1: "byColumn_ok (length (timestamps b))
        \<lparr>col = cl, i64Values = fst (createInt64Values ext shard (keyValues b bf)),
         f64Values = fst (createFloat64Values ext
            (snd (createInt64Values ext shard (keyValues b bf))) (keyValues b bf))\<rparr>"
      using cc lv lc False
      by (cases "isConst cl") (simp_all add: byColumn_ok_def createInt64Values_fst createFloat64Values_fst)
    show ?thesis unfolding collectByColumns_values[OF t]
      using Cons.IH[of "snd (createFloat64Values ext
              (snd (createInt64Values ext shard (keyValues b bf))) (keyValues b bf))"] ok1 False
      by (simp add: cl_def)
  qed
qed

lemma shard_writeBlock_fields:
  "ps (shard_writeBlock ext shard b) = ps shard \<and>
   rowRefNext (shard_writeBlock ext shard b) = rowRefNext shard \<and>
   length (blocks (shard_writeBlock ext shard b)) = Suc (length (blocks shard)) \<and>
   butlast (blocks (shard_writeBlock ext shard b)) = blocks shard \<and>
   br (last (blocks (shard_writeBlock ext shard b))) = b \<and>
   rowRefs (shard_writeBlock ext shard b) =
     rowRefs shard @ map (\<lambda>i. \<lparr>blockIdx = length (blocks shard), rowIdx = i\<rparr>) [0..<length (timestamps b)]"
proof (cases "length (byFields (ps shard)) = 0")
  case True
  then show ?thesis by (simp add: shard_writeBlock_def Let_def)
next
  case False
  obtain bcs sh1 where c: "collectByColumns ext b (byFields (ps shard)) shard = (bcs, sh1)"
    by (cases "collectByColumns ext b (byFields (ps shard)) shard") auto
  have f: "ps sh1 = ps shard" "blocks sh1 = blocks shard" "rowRefs sh1 = rowRefs shard"
    "rowRefNext sh1 = rowRefNext shard"
    using collectByColumns_shard[of ext b "byFields (ps shard)" shard] c by simp_all
  show ?thesis using False c f by (simp add: shard_writeBlock_def Let_def)
qed

lemma shard_writeBlock_last:
  assumes "block_ok b"
  shows "sortBlock_ok (ps shard) (last (blocks (shard_writeBlock ext shard b))) \<and>
         list_all (\<lambda>bc. isTime (col bc) \<longrightarrow> i64Values bc = [] \<and> f64Values bc = [])
           (byColumns (last (blocks (shard_writeBlock ext shard b))))"
proof (cases "length (byFields (ps shard)) = 0")
  case True
  then show ?thesis
    by (simp add: shard_writeBlock_def Let_def sortBlock_ok_def byColumn_ok_def)
next
  case False
  obtain bcs sh1 where c: "collectByColumns ext b (byFields (ps shard)) shard = (bcs, sh1)"
    by (cases "collectByColumns ext b (byFields (ps shard)) shard") auto
  have k: "length bcs = length (byFields (ps shard))"
    "list_all (byColumn_ok (length (timestamps b))) bcs"
    "list_all (\<lambda>bc. isTime (col bc) \<longrightarrow> i64Values bc = [] \<and> f64Values bc = []) bcs"
    using collectByColumns_ok[OF assms, of ext "byFields (ps shard)" shard] c by simp_all
  show ?thesis using False c k by (simp add: shard_writeBlock_def Let_def sortBlock_ok_def)
qed

lemma shard_writeBlock_ok:
  assumes "shard_ok shard" "block_ok b"
  shows "shard_ok (shard_writeBlock ext shard b)"
proof -
  define s2 where "s2 = shard_writeBlock ext shard b"
  note f = shard_writeBlock_fields[of ext shard b, folded s2_def]
  note l = shard_writeBlock_last[OF assms(2), of shard ext, folded s2_def]
  have ne: "blocks s2 \<noteq> []" using f by auto
  have bl: "blocks s2 = blocks shard @ [last (blocks s2)]"
    using f ne by (metis append_butlast_last_id)
  have 1: "list_all (sortBlock_ok (ps s2)) (blocks s2)"
  proof -
    have "list_all (sortBlock_ok (ps shard)) (blocks shard @ [last (blocks s2)])"
      using assms(1) l by (simp add: shard_ok_def)
    then show ?thesis using bl f by simp
  qed
  have old: "\<And>rr. rr \<in> set (rowRefs shard) \<Longrightarrow>
      blockIdx rr < length (blocks s2) \<and>
      rowIdx rr < length (timestamps (br (blocks s2 ! blockIdx rr)))"
  proof -
    fix rr assume "rr \<in> set (rowRefs shard)"
    then have r: "blockIdx rr < length (blocks shard)"
      "rowIdx rr < length (timestamps (br (blocks shard ! blockIdx rr)))"
      using assms(1) by (auto simp: shard_ok_def list_all_iff)
    have "blocks s2 ! blockIdx rr = blocks shard ! blockIdx rr"
      using bl r(1) by (metis nth_append)
    then show "blockIdx rr < length (blocks s2) \<and>
      rowIdx rr < length (timestamps (br (blocks s2 ! blockIdx rr)))"
      using r f by simp
  qed
  have new: "\<And>i. i < length (timestamps b) \<Longrightarrow>
      length (blocks shard) < length (blocks s2) \<and>
      i < length (timestamps (br (blocks s2 ! length (blocks shard))))"
  proof -
    fix i assume i: "i < length (timestamps b)"
    have "blocks s2 ! length (blocks shard) = last (blocks s2)"
      using bl by (metis nth_append_length)
    then show "length (blocks shard) < length (blocks s2) \<and>
      i < length (timestamps (br (blocks s2 ! length (blocks shard))))"
      using f i by simp
  qed
  have 2: "list_all (\<lambda>rr. blockIdx rr < length (blocks s2) \<and>
                      rowIdx rr < length (timestamps (br (blocks s2 ! blockIdx rr))))
        (rowRefs s2)"
    using old new f by (auto simp: list_all_iff)
  show ?thesis using 1 2 unfolding s2_def[symmetric] by (simp add: shard_ok_def)
qed

lemma at_nth: "i < length xs \<Longrightarrow> at xs i = Some (xs ! i)"
  by (simp add: at_def)

lemma getI64ValueAtRow_defined:
  assumes "byColumn_ok n bc" "\<not> isTime (col bc)" "r < n"
  shows "\<exists>u. getI64ValueAtRow bc r = Some u"
proof (cases "isConst (col bc)")
  case True
  then have "i64Values bc \<noteq> []" using assms(1,2) by (auto simp: byColumn_ok_def)
  then show ?thesis using True by (simp add: getI64ValueAtRow_def at_def)
next
  case False
  then have "length (i64Values bc) = n" using assms(1,2) by (simp add: byColumn_ok_def)
  then show ?thesis using False assms(3) by (simp add: getI64ValueAtRow_def at_def)
qed

lemma getF64ValueAtRow_defined:
  assumes "byColumn_ok n bc" "\<not> isTime (col bc)" "r < n"
  shows "\<exists>u. getF64ValueAtRow bc r = Some u"
proof (cases "isConst (col bc)")
  case True
  then have "f64Values bc \<noteq> []" using assms(1,2) by (auto simp: byColumn_ok_def)
  then show ?thesis using True by (simp add: getF64ValueAtRow_def at_def)
next
  case False
  then have "length (f64Values bc) = n" using assms(1,2) by (simp add: byColumn_ok_def)
  then show ?thesis using False assms(3) by (simp add: getF64ValueAtRow_def at_def)
qed

lemma tierValues_defined:
  assumes "getI64ValueAtRow cA i = Some uA" "getI64ValueAtRow cB j = Some uB"
    "getF64ValueAtRow cA i = Some fA" "getF64ValueAtRow cB j = Some fB"
  shows "\<exists>r. tierValues desc cA a i cB b j = Some r"
proof (cases "uA \<noteq> 0 \<and> uB \<noteq> 0")
  case True
  then show ?thesis using assms by (simp add: tierValues_def)
next
  case False
  show ?thesis using tierValues_floats[OF assms(1,2) False assms(3,4)] by simp
qed

lemma keyIsDesc_defined:
  "length (byFields p) = 0 \<or> idx < length (byFields p) \<Longrightarrow> \<exists>d. keyIsDesc p idx = Some d"
  by (auto simp: keyIsDesc_def at_def)

lemma key_defined:
  assumes "sortBlock_ok p bA" "sortBlock_ok p bB" "idx < length (byColumns bA)"
    "rowIdx rrA < length (timestamps (br bA))" "rowIdx rrB < length (timestamps (br bB))"
  shows "\<exists>r. sortBlockLess_key p bA rrA bB rrB idx = Some r"
proof -
  have len: "length (byColumns bB) = length (byColumns bA)"
    using assms(1,2) by (simp add: sortBlock_ok_def)
  define cA where "cA = byColumns bA ! idx"
  define cB where "cB = byColumns bB ! idx"
  have a: "at (byColumns bA) idx = Some cA" using assms(3) by (simp add: at_def cA_def)
  have b: "at (byColumns bB) idx = Some cB" using assms(3) len by (simp add: at_def cB_def)
  have okA: "byColumn_ok (length (timestamps (br bA))) cA"
    using assms(1,3) by (simp add: sortBlock_ok_def list_all_length cA_def)
  have okB: "byColumn_ok (length (timestamps (br bB))) cB"
    using assms(2,3) len by (simp add: sortBlock_ok_def list_all_length cB_def)
  have "length (byFields p) = 0 \<or> idx < length (byFields p)"
    using assms(1,3) by (auto simp: sortBlock_ok_def split: if_splits)
  then obtain d where d: "keyIsDesc p idx = Some d" using keyIsDesc_defined by blast
  consider (const) "isConst (col cA) \<and> isConst (col cB)"
    | (time) "\<not> (isConst (col cA) \<and> isConst (col cB))" "isTime (col cA)" "isTime (col cB)"
    | (timeA) "\<not> (isConst (col cA) \<and> isConst (col cB))" "isTime (col cA)" "\<not> isTime (col cB)"
    | (timeB) "\<not> (isConst (col cA) \<and> isConst (col cB))" "\<not> isTime (col cA)" "isTime (col cB)"
    | (vals) "\<not> (isConst (col cA) \<and> isConst (col cB))" "\<not> isTime (col cA)" "\<not> isTime (col cB)"
    by blast
  then show ?thesis
  proof cases
    case const
    then have "encodedValues (col cA) \<noteq> []" "encodedValues (col cB) \<noteq> []"
      using okA okB by (simp_all add: byColumn_ok_def)
    then have "\<exists>r. tierConst (col cA) (col cB) = Some r"
      by (simp add: tierConst_def at_def)
    then show ?thesis using key_const[OF a b d, of rrA rrB] const by simp
  next
    case time
    have "\<exists>r. tierTime d (br bA) (rowIdx rrA) (br bB) (rowIdx rrB) = Some r"
      using assms(4,5) by (simp add: tierTime_def at_def)
    then show ?thesis using key_time[OF a b d time, of rrA rrB] by simp
  next
    case timeA
    show ?thesis using key_timeA[OF a b d timeA, of rrA rrB] by simp
  next
    case timeB
    show ?thesis using key_timeB[OF a b d timeB, of rrA rrB] by simp
  next
    case vals
    obtain uA where uA: "getI64ValueAtRow cA (rowIdx rrA) = Some uA"
      using getI64ValueAtRow_defined[OF okA vals(2) assms(4)] by blast
    obtain uB where uB: "getI64ValueAtRow cB (rowIdx rrB) = Some uB"
      using getI64ValueAtRow_defined[OF okB vals(3) assms(5)] by blast
    obtain fA where fA: "getF64ValueAtRow cA (rowIdx rrA) = Some fA"
      using getF64ValueAtRow_defined[OF okA vals(2) assms(4)] by blast
    obtain fB where fB: "getF64ValueAtRow cB (rowIdx rrB) = Some fB"
      using getF64ValueAtRow_defined[OF okB vals(3) assms(5)] by blast
    show ?thesis
      using key_values[OF a b d vals, of rrA rrB]
        tierValues_defined[OF uA uB fA fB, of d "br bA" "br bB"] by simp
  qed
qed

lemma loop_defined:
  assumes "sortBlock_ok p bA" "sortBlock_ok p bB"
    "rowIdx rrA < length (timestamps (br bA))" "rowIdx rrB < length (timestamps (br bB))"
    "\<forall>idx\<in>set idxs. idx < length (byColumns bA)"
  shows "\<exists>r. sortBlockLess_loop p bA rrA bB rrB idxs = Some r"
  using assms(5)
proof (induction idxs)
  case Nil
  then show ?case by auto
next
  case (Cons idx idxs)
  then have "idx < length (byColumns bA)" by simp
  from key_defined[OF assms(1,2) this assms(3,4)]
  obtain r where r: "sortBlockLess_key p bA rrA bB rrB idx = Some r" by blast
  show ?case using r Cons by (cases r) simp_all
qed

lemma refs_defined:
  assumes "shard_ok shardA" "shard_ok shardB" "ps shardA = ps shardB"
    "rrA \<in> set (rowRefs shardA)" "rrB \<in> set (rowRefs shardB)"
  shows "\<exists>r. sortBlockLess_refs shardA rrA shardB rrB = Some r"
proof -
  have a: "blockIdx rrA < length (blocks shardA)"
    "rowIdx rrA < length (timestamps (br (blocks shardA ! blockIdx rrA)))"
    using assms(1,4) by (auto simp: shard_ok_def list_all_iff)
  have b: "blockIdx rrB < length (blocks shardB)"
    "rowIdx rrB < length (timestamps (br (blocks shardB ! blockIdx rrB)))"
    using assms(2,5) by (auto simp: shard_ok_def list_all_iff)
  have okA: "sortBlock_ok (ps shardA) (blocks shardA ! blockIdx rrA)"
    using assms(1) a(1) by (simp add: shard_ok_def list_all_length)
  have okB: "sortBlock_ok (ps shardA) (blocks shardB ! blockIdx rrB)"
    using assms(2,3) b(1) by (simp add: shard_ok_def list_all_length)
  have "\<exists>r. sortBlockLess_loop (ps shardA) (blocks shardA ! blockIdx rrA) rrA
      (blocks shardB ! blockIdx rrB) rrB [0..<length (byColumns (blocks shardA ! blockIdx rrA))] = Some r"
    by (rule loop_defined[OF okA okB a(2) b(2)]) simp
  then show ?thesis using a(1) b(1) by (simp add: sortBlockLess_refs_def at_def)
qed

lemma sortBlockLess_defined:
  assumes "shard_ok shardA" "shard_ok shardB" "ps shardA = ps shardB"
    "i < length (rowRefs shardA)" "j < length (rowRefs shardB)"
  shows "\<exists>r. sortBlockLess shardA i shardB j = Some r"
proof -
  have "\<exists>r. sortBlockLess_refs shardA (rowRefs shardA ! i) shardB (rowRefs shardB ! j) = Some r"
    using refs_defined[OF assms(1,2,3)] assms(4,5) by simp
  then show ?thesis using assms(4,5) by (simp add: sortBlockLess_def at_def)
qed

text \<open>
  Replacing the numeric arrays of the key columns of a block: what a comparison that
  never reads them cannot notice.
\<close>

definition withArrays ::
  "('f sortBlockByColumn \<Rightarrow> int64 list \<times> 'f float64 list) \<Rightarrow> 'f sortBlock \<Rightarrow> 'f sortBlock" where
  "withArrays f sb =
     sb\<lparr>byColumns := map (\<lambda>bc. bc\<lparr>i64Values := fst (f bc), f64Values := snd (f bc)\<rparr>) (byColumns sb)\<rparr>"

lemma at_withArrays:
  "at (byColumns sb) idx = Some bc \<Longrightarrow>
   at (byColumns (withArrays f sb)) idx = Some (bc\<lparr>i64Values := fst (f bc), f64Values := snd (f bc)\<rparr>)"
  by (auto simp: at_def withArrays_def split: if_splits)

lemma key_time_ignores_arrays:
  assumes "at (byColumns bA) idx = Some cA" "at (byColumns bB) idx = Some cB"
    "isTime (col cA) \<or> isTime (col cB)"
  shows "sortBlockLess_key p (withArrays f bA) rrA (withArrays g bB) rrB idx =
         sortBlockLess_key p bA rrA bB rrB idx"
proof (cases "keyIsDesc p idx")
  case None
  then show ?thesis
    using assms(1,2) at_withArrays[OF assms(1), of f] at_withArrays[OF assms(2), of g]
    by (simp add: sortBlockLess_key_def)
next
  case (Some d)
  note a = at_withArrays[OF assms(1), of f]
  note b = at_withArrays[OF assms(2), of g]
  have brA: "br (withArrays f bA) = br bA" and brB: "br (withArrays g bB) = br bB"
    by (simp_all add: withArrays_def)
  consider (const) "isConst (col cA) \<and> isConst (col cB)"
    | (time) "\<not> (isConst (col cA) \<and> isConst (col cB))" "isTime (col cA)" "isTime (col cB)"
    | (timeA) "\<not> (isConst (col cA) \<and> isConst (col cB))" "isTime (col cA)" "\<not> isTime (col cB)"
    | (timeB) "\<not> (isConst (col cA) \<and> isConst (col cB))" "\<not> isTime (col cA)" "isTime (col cB)"
    using assms(3) by blast
  then show ?thesis
  proof cases
    case const
    show ?thesis
      using key_const[OF assms(1,2) Some, of rrA rrB] key_const[OF a b Some, of rrA rrB] const
      by simp
  next
    case time
    show ?thesis
      using key_time[OF assms(1,2) Some time, of rrA rrB] key_time[OF a b Some, of rrA rrB] time
      by (simp add: brA brB)
  next
    case timeA
    show ?thesis
      using key_timeA[OF assms(1,2) Some timeA, of rrA rrB] key_timeA[OF a b Some, of rrA rrB] timeA
      by simp
  next
    case timeB
    show ?thesis
      using key_timeB[OF assms(1,2) Some timeB, of rrA rrB] key_timeB[OF a b Some, of rrA rrB] timeB
      by simp
  qed
qed

lemma collectByColumns_time_nil:
  "list_all (\<lambda>bc. isTime (col bc) \<longrightarrow> i64Values bc = [] \<and> f64Values bc = [])
     (fst (collectByColumns ext b bfs shard))"
proof (induction bfs arbitrary: shard)
  case Nil
  then show ?case by simp
next
  case (Cons bf bfs)
  show ?case
  proof (cases "isTime (getColumnByName b (bf_name bf))")
    case True
    show ?thesis unfolding collectByColumns_time[OF True] using Cons.IH[of shard] by simp
  next
    case False
    show ?thesis unfolding collectByColumns_values[OF False]
      using Cons.IH[of "snd (createFloat64Values ext
              (snd (createInt64Values ext shard (keyValues b bf))) (keyValues b bf))"] False
      by simp
  qed
qed

lemma shard_writeBlock_time_nil:
  "list_all (\<lambda>bc. isTime (col bc) \<longrightarrow> i64Values bc = [] \<and> f64Values bc = [])
     (byColumns (last (blocks (shard_writeBlock ext shard b))))"
proof (cases "length (byFields (ps shard)) = 0")
  case True
  then show ?thesis by (simp add: shard_writeBlock_def Let_def)
next
  case False
  obtain bcs sh1 where c: "collectByColumns ext b (byFields (ps shard)) shard = (bcs, sh1)"
    by (cases "collectByColumns ext b (byFields (ps shard)) shard") auto
  have "list_all (\<lambda>bc. isTime (col bc) \<longrightarrow> i64Values bc = [] \<and> f64Values bc = []) bcs"
    using collectByColumns_time_nil[of ext b "byFields (ps shard)" shard] c by simp
  then show ?thesis using False c by (simp add: shard_writeBlock_def Let_def)
qed

lemma fresh_shard_ok:
  "shard_ok \<lparr>ps = p, blocks = [], rowRefs = [], rowRefNext = 0, stateSizeBudget = c\<rparr>"
  by (simp add: shard_ok_def)

definition timeColumn :: blockResultColumn where
  "timeColumn =
     \<lparr>name = ''_time'', isTime = True, isConst = False, encodedValues = [], valueAt = (\<lambda>i. [])\<rparr>"

definition timeBlock :: blockResult where
  "timeBlock =
     \<lparr>timestamps = [100, 50], columns = [timeColumn, stringColumn ''n'' [''a'', ''b'']],
      sizeBytes = 2\<rparr>"

definition sortByTime :: pipeSort where
  "sortByTime = \<lparr>byFields = [\<lparr>bf_name = ''_time'', bf_isDesc = False\<rparr>], isDesc = False\<rparr>"

definition timeShard :: "int pipeSortProcessorShard" where
  "timeShard =
     shard_writeBlock exampleExternals
       \<lparr>ps = sortByTime, blocks = [], rowRefs = [], rowRefNext = 0, stateSizeBudget = 1048576\<rparr>
       timeBlock"

text \<open>
  Claim C9. \<open>writeBlock\<close> leaves \<open>i64Values\<close> and \<open>f64Values\<close> empty (nil) for every key
  column flagged \<open>isTime\<close>. A key whose column is \<open>isTime\<close> on either side is decided
  without these arrays: its outcome is the same whatever arrays the key columns carry.
  The numeric tiers index arrays of the required length: a fresh shard is well formed,
  \<open>writeBlock\<close> of a well-formed block keeps a shard well formed, and on two well-formed
  shards with the same sort configuration \<open>sortBlockLess\<close> returns at every pair of
  valid row indices, that is, no index is out of range.
\<close>

theorem time_columns_never_indexed:
  "list_all (\<lambda>bc. isTime (col bc) \<longrightarrow> i64Values bc = [] \<and> f64Values bc = [])
     (byColumns (last (blocks (shard_writeBlock ext shard b)))) \<and>
   (at (byColumns bA) idx = Some cA \<and> at (byColumns bB) idx = Some cB \<and>
    (isTime (col cA) \<or> isTime (col cB)) \<longrightarrow>
      sortBlockLess_key p (withArrays f bA) rrA (withArrays g bB) rrB idx =
      sortBlockLess_key p bA rrA bB rrB idx) \<and>
   shard_ok \<lparr>ps = p, blocks = [], rowRefs = [], rowRefNext = 0, stateSizeBudget = c\<rparr> \<and>
   (shard_ok shard \<and> block_ok b \<longrightarrow> shard_ok (shard_writeBlock ext shard b)) \<and>
   (shard_ok shardA \<and> shard_ok shardB \<and> ps shardA = ps shardB \<and>
    i < length (rowRefs shardA) \<and> j < length (rowRefs shardB) \<longrightarrow>
      (\<exists>r. sortBlockLess shardA i shardB j = Some r))"
  using shard_writeBlock_time_nil[of ext shard b]
    key_time_ignores_arrays[of bA idx cA bB cB p f rrA g rrB]
    fresh_shard_ok[of p c]
    shard_writeBlock_ok[of shard b ext]
    sortBlockLess_defined[of shardA shardB i j]
  by blast

theorem time_columns_never_indexed_witness:
  "map (\<lambda>bc. (isTime (col bc), i64Values bc, f64Values bc)) (byColumns (last (blocks timeShard)))
     = [(True, [], [])] \<and>
   shard_ok timeShard \<and>
   (\<exists>r. sortBlockLess timeShard 0 timeShard 1 = Some r) \<and>
   sortBlockLess_key sortByTime
      (withArrays (\<lambda>bc. ([7], [NaN])) (last (blocks timeShard))) \<lparr>blockIdx = 0, rowIdx = 0\<rparr>
      (withArrays (\<lambda>bc. ([], [])) (last (blocks timeShard))) \<lparr>blockIdx = 0, rowIdx = 1\<rparr> 0 =
   sortBlockLess_key sortByTime
      (last (blocks timeShard)) \<lparr>blockIdx = 0, rowIdx = 0\<rparr>
      (last (blocks timeShard)) \<lparr>blockIdx = 0, rowIdx = 1\<rparr> 0"
proof -
  have ok: "block_ok timeBlock"
    by (simp add: block_ok_def timeBlock_def timeColumn_def stringColumn_def)
  have fresh: "shard_ok \<lparr>ps = sortByTime, blocks = [], rowRefs = [], rowRefNext = 0,
      stateSizeBudget = 1048576\<rparr>"
    by (rule fresh_shard_ok)
  have sh: "timeShard =
     \<lparr>ps = sortByTime,
      blocks = [\<lparr>br = timeBlock,
                 byColumns = [\<lparr>col = timeColumn, i64Values = [], f64Values = []\<rparr>],
                 otherColumns = [stringColumn ''n'' [''a'', ''b'']]\<rparr>],
      rowRefs = [\<lparr>blockIdx = 0, rowIdx = 0\<rparr>, \<lparr>blockIdx = 0, rowIdx = 1\<rparr>],
      rowRefNext = 0,
      stateSizeBudget = 1048576 - 56 - 8 - 2 - 56 - 32\<rparr>"
    by (simp add: timeShard_def shard_writeBlock_def sortByTime_def timeBlock_def timeColumn_def
        stringColumn_def getColumnByName_def exampleExternals_def Let_def upt_rec)
  have a: "at (byColumns (last (blocks timeShard))) 0 =
      Some \<lparr>col = timeColumn, i64Values = [], f64Values = []\<rparr>"
    by (simp add: sh at_def)
  have t: "isTime (col \<lparr>col = timeColumn, i64Values = [], f64Values = ([] :: int float64 list)\<rparr>)"
    by (simp add: timeColumn_def)
  have l: "0 < length (rowRefs timeShard)" "1 < length (rowRefs timeShard)"
    by (simp_all add: sh)
  have ok2: "shard_ok timeShard"
    using shard_writeBlock_ok[OF fresh ok, of exampleExternals]
    unfolding timeShard_def by blast
  note T = time_columns_never_indexed[where ext = exampleExternals
        and shard = "\<lparr>ps = sortByTime, blocks = [], rowRefs = [], rowRefNext = 0,
              stateSizeBudget = 1048576\<rparr>"
        and b = timeBlock
        and bA = "last (blocks timeShard)" and idx = 0
        and cA = "\<lparr>col = timeColumn, i64Values = [], f64Values = []\<rparr>"
        and bB = "last (blocks timeShard)"
        and cB = "\<lparr>col = timeColumn, i64Values = [], f64Values = []\<rparr>"
        and p = sortByTime and f = "\<lambda>bc. ([7], [NaN])"
        and rrA = "\<lparr>blockIdx = 0, rowIdx = 0\<rparr>" and g = "\<lambda>bc. ([], [])"
        and rrB = "\<lparr>blockIdx = 0, rowIdx = 1\<rparr>"
        and shardA = timeShard and shardB = timeShard and i = 0 and j = 1]
  have c1: "map (\<lambda>bc. (isTime (col bc), i64Values bc, f64Values bc)) (byColumns (last (blocks timeShard)))
     = [(True, [], [])]"
    by (simp add: sh timeColumn_def)
  have c3: "\<exists>r. sortBlockLess timeShard 0 timeShard 1 = Some r"
    using T ok2 l by blast
  have c4: "sortBlockLess_key sortByTime
      (withArrays (\<lambda>bc. ([7], [NaN])) (last (blocks timeShard))) \<lparr>blockIdx = 0, rowIdx = 0\<rparr>
      (withArrays (\<lambda>bc. ([], [])) (last (blocks timeShard))) \<lparr>blockIdx = 0, rowIdx = 1\<rparr> 0 =
   sortBlockLess_key sortByTime
      (last (blocks timeShard)) \<lparr>blockIdx = 0, rowIdx = 0\<rparr>
      (last (blocks timeShard)) \<lparr>blockIdx = 0, rowIdx = 1\<rparr> 0"
    using T a t by blast
  show ?thesis
    using c1 ok2 c3 c4 by blast
qed

section \<open>Claims about the output batcher\<close>

text \<open>
  What a flush writes to \<open>ppBase\<close>: the block of the accumulated columns, under worker
  id 0, and nothing when the accumulator has no column.
\<close>

definition flushOutput :: "resultColumn list \<Rightarrow> (nat \<times> resultColumn list) list" where
  "flushOutput rs = (if length rs = 0 then [] else [(0, rs)])"

lemma wctx_flush_written: "written (wctx_flush w) = written w @ flushOutput (rcs w)"
  by (simp add: wctx_flush_def flushOutput_def Let_def)

lemma wctx_flush_names: "map rc_name (rcs (wctx_flush w)) = map rc_name (rcs w)"
  by (simp add: wctx_flush_def Let_def resetKeepName_def comp_def)

lemma wctx_flush_valuesLen: "valuesLen (wctx_flush w) = 0"
  by (simp add: wctx_flush_def Let_def)

lemma areEqualColumns_iff:
  "areEqualColumns rs bfs others \<longleftrightarrow>
     length rs = length bfs + length others \<and>
     map rc_name (drop (length bfs) rs) = map name others"
proof (cases "length rs = length bfs + length others")
  case False
  then show ?thesis by (simp add: areEqualColumns_def)
next
  case True
  have "list_all (\<lambda>i. rc_name (rs ! (length bfs + i)) = name (others ! i)) [0..<length others]
      \<longleftrightarrow> (\<forall>i<length others. rc_name (rs ! (length bfs + i)) = name (others ! i))"
    by (auto simp: list_all_iff)
  also have "\<dots> \<longleftrightarrow> map rc_name (drop (length bfs) rs) = map name others"
  proof
    assume h: "\<forall>i<length others. rc_name (rs ! (length bfs + i)) = name (others ! i)"
    show "map rc_name (drop (length bfs) rs) = map name others"
      by (rule nth_equalityI) (use True h in auto)
  next
    assume e: "map rc_name (drop (length bfs) rs) = map name others"
    show "\<forall>i<length others. rc_name (rs ! (length bfs + i)) = name (others ! i)"
    proof (intro allI impI)
      fix i assume i: "i < length others"
      have "map rc_name (drop (length bfs) rs) ! i = map name others ! i" using e by simp
      then show "rc_name (rs ! (length bfs + i)) = name (others ! i)"
        using i True by simp
    qed
  qed
  finally show ?thesis using True by (simp add: areEqualColumns_def)
qed

lemma addValue_names:
  "length acc = length row \<Longrightarrow>
     map rc_name (map (\<lambda>(rc, v). addValue rc v) (zip acc row)) = map rc_name acc"
  by (induction acc row rule: list_induct2) (simp_all add: addValue_def)

text \<open>The row that \<open>writeRow\<close> appends and the column names of its source block.\<close>

definition rowValues :: "bySortField list \<Rightarrow> 'f sortBlock \<Rightarrow> sortRowRef \<Rightarrow> string list" where
  "rowValues bfs b rr =
     map (\<lambda>bc. getValueAtRow (col bc) (br b) (rowIdx rr)) (take (length bfs) (byColumns b)) @
     map (\<lambda>cl. getValueAtRow cl (br b) (rowIdx rr)) (otherColumns b)"

definition rowNames :: "bySortField list \<Rightarrow> 'f sortBlock \<Rightarrow> string list" where
  "rowNames bfs b = map bf_name bfs @ map name (otherColumns b)"

definition emptyColumns :: "string list \<Rightarrow> resultColumn list" where
  "emptyColumns ns = map (\<lambda>n. \<lparr>rc_name = n, rc_values = []\<rparr>) ns"

lemma wctx_writeRow_unfold:
  assumes "at (rowRefs shard) i = Some rr" "at (blocks shard) (blockIdx rr) = Some b"
    "length (byFields (ps shard)) \<le> length (byColumns b)"
  shows "wctx_writeRow wctx shard i =
     (let bfs = byFields (ps shard);
          w1 = (if \<not> areEqualColumns (rcs wctx) bfs (otherColumns b)
                then (wctx_flush wctx)\<lparr>rcs := emptyColumns (rowNames bfs b)\<rparr> else wctx);
          w2 = w1\<lparr>rcs := map (\<lambda>(rc, v). addValue rc v) (zip (rcs w1) (rowValues bfs b rr)),
                  valuesLen := valuesLen w1 + int (length (concat (rowValues bfs b rr)))\<rparr>
      in Some (if valuesLen w2 \<ge> 1000000 then wctx_flush w2 else w2))"
  using assms
  by (simp add: wctx_writeRow_def Let_def rowValues_def rowNames_def emptyColumns_def comp_def)

lemma addValue_values:
  "length acc = length row \<Longrightarrow>
     map rc_values (map (\<lambda>(rc, v). addValue rc v) (zip acc row)) =
     map (\<lambda>(vs, v). vs @ [v]) (zip (map rc_values acc) row)"
  by (induction acc row rule: list_induct2) (simp_all add: addValue_def)

lemma wctx_flush_rcs: "rcs (wctx_flush w) = map resetKeepName (rcs w)"
  by (simp add: wctx_flush_def Let_def)

lemma wctx_writeRow_exact:
  assumes "at (rowRefs shard) i = Some rr" and "at (blocks shard) (blockIdx rr) = Some b"
    and "length (byFields (ps shard)) \<le> length (byColumns b)"
    and "map rc_name (take (length (byFields (ps shard))) (rcs wctx)) =
         map bf_name (take (length (rcs wctx)) (byFields (ps shard)))"
  defines "bfs \<equiv> byFields (ps shard)"
  defines "differs \<equiv> \<not> areEqualColumns (rcs wctx) bfs (otherColumns b)"
  defines "acc \<equiv> (if differs then emptyColumns (rowNames bfs b) else rcs wctx)"
  defines "acc2 \<equiv> map (\<lambda>(rc, v). addValue rc v) (zip acc (rowValues bfs b rr))"
  defines "len2 \<equiv> (if differs then 0 else valuesLen wctx) + int (length (concat (rowValues bfs b rr)))"
  shows "wctx_writeRow wctx shard i =
           Some \<lparr>rcs = (if len2 \<ge> 1000000 then map resetKeepName acc2 else acc2),
                 valuesLen = (if len2 \<ge> 1000000 then 0 else len2),
                 written = written wctx @ (if differs then flushOutput (rcs wctx) else []) @
                           (if len2 \<ge> 1000000 then flushOutput acc2 else [])\<rparr> \<and>
     map rc_name acc2 = rowNames bfs b \<and>
     map rc_values acc2 = map (\<lambda>(vs, v). vs @ [v]) (zip (map rc_values acc) (rowValues bfs b rr))"
proof -
  have lrow: "length (rowValues bfs b rr) = length bfs + length (otherColumns b)"
    using assms(3) by (simp add: rowValues_def bfs_def)
  have lnames: "length (rowNames bfs b) = length bfs + length (otherColumns b)"
    by (simp add: rowNames_def)
  have accn: "map rc_name acc = rowNames bfs b"
  proof (cases differs)
    case True
    then show ?thesis by (simp add: acc_def emptyColumns_def comp_def)
  next
    case False
    then have e: "length (rcs wctx) = length bfs + length (otherColumns b)"
      "map rc_name (drop (length bfs) (rcs wctx)) = map name (otherColumns b)"
      using areEqualColumns_iff[of "rcs wctx" bfs "otherColumns b"] by (simp_all add: differs_def)
    have t: "map rc_name (take (length bfs) (rcs wctx)) = map bf_name bfs"
      using assms(4) e(1) by (simp add: bfs_def)
    have "map rc_name (rcs wctx) =
        map rc_name (take (length bfs) (rcs wctx)) @ map rc_name (drop (length bfs) (rcs wctx))"
      by (metis append_take_drop_id map_append)
    also have "\<dots> = map bf_name bfs @ map name (otherColumns b)"
      by (simp only: t e(2))
    finally show ?thesis using False by (simp add: acc_def rowNames_def)
  qed
  have lacc: "length acc = length (rowValues bfs b rr)"
    using accn lrow lnames by (metis length_map)
  have acc2n: "map rc_name acc2 = rowNames bfs b"
    using addValue_names[OF lacc] accn by (simp add: acc2_def)
  have acc2v: "map rc_values acc2 =
      map (\<lambda>(vs, v). vs @ [v]) (zip (map rc_values acc) (rowValues bfs b rr))"
    unfolding acc2_def by (rule addValue_values[OF lacc])
  define w1 where "w1 = (if differs
                then (wctx_flush wctx)\<lparr>rcs := emptyColumns (rowNames bfs b)\<rparr> else wctx)"
  define w2 where "w2 = w1\<lparr>rcs := map (\<lambda>(rc, v). addValue rc v) (zip (rcs w1) (rowValues bfs b rr)),
                  valuesLen := valuesLen w1 + int (length (concat (rowValues bfs b rr)))\<rparr>"
  have r1: "rcs w1 = acc" by (simp add: w1_def acc_def)
  have v1: "valuesLen w1 = (if differs then 0 else valuesLen wctx)"
    by (simp add: w1_def wctx_flush_valuesLen)
  have wr1: "written w1 = written wctx @ (if differs then flushOutput (rcs wctx) else [])"
    by (simp add: w1_def wctx_flush_written)
  have r2: "rcs w2 = acc2" "valuesLen w2 = len2" "written w2 = written w1"
    by (simp_all add: w2_def r1 v1 acc2_def len2_def)
  have res: "wctx_writeRow wctx shard i = Some (if valuesLen w2 \<ge> 1000000 then wctx_flush w2 else w2)"
    using wctx_writeRow_unfold[OF assms(1,2,3), of wctx]
    by (simp add: Let_def w2_def w1_def bfs_def differs_def)
  have eq: "(if valuesLen w2 \<ge> 1000000 then wctx_flush w2 else w2) =
           \<lparr>rcs = (if len2 \<ge> 1000000 then map resetKeepName acc2 else acc2),
                 valuesLen = (if len2 \<ge> 1000000 then 0 else len2),
                 written = written wctx @ (if differs then flushOutput (rcs wctx) else []) @
                           (if len2 \<ge> 1000000 then flushOutput acc2 else [])\<rparr>"
  proof (cases "len2 \<ge> 1000000")
    case True
    then show ?thesis
      using r2 wr1 by (simp add: wctx_flush_written wctx_flush_rcs wctx_flush_valuesLen)
  next
    case False
    then show ?thesis using r2 wr1 by simp
  qed
  show ?thesis using res eq acc2n acc2v by simp
qed

text \<open>
  A processor with one worker that has taken the block of the rows \<open>n = "10"\<close> and
  \<open>n = "9"\<close>, and its shard with the arrays written out.
\<close>

definition keyedShard ::
  "string list \<Rightarrow> int64 list \<Rightarrow> int float64 list \<Rightarrow> sortRowRef list \<Rightarrow> nat \<Rightarrow> int pipeSortProcessorShard" where
  "keyedShard vs is fs refs nxt =
     \<lparr>ps = sortByN,
      blocks = [\<lparr>br = exampleBlock ''n'' vs,
                 byColumns = [\<lparr>col = stringColumn ''n'' vs, i64Values = is, f64Values = fs\<rparr>],
                 otherColumns = []\<rparr>],
      rowRefs = refs,
      rowRefNext = nxt,
      stateSizeBudget = 1048576 - 56 - 56 - int (length (concat vs)) - 32 * int (length vs)\<rparr>"

lemma exampleShard_10_9:
  "exampleShard sortByN [''10'', ''9''] =
     keyedShard [''10'', ''9''] [10, 9] [Float 10, Float 9]
       [\<lparr>blockIdx = 0, rowIdx = 0\<rparr>, \<lparr>blockIdx = 0, rowIdx = Suc 0\<rparr>] 0"
  by (simp add: example_defs keyedShard_def)

definition oneWorker :: "int pipeSortProcessor" where
  "oneWorker =
     \<lparr>psp_ps = sortByN, shards = [exampleShard sortByN [''10'', ''9'']],
      maxStateSize = 103809024, psp_stateSizeBudget = 103809024, cancelCalls = 0\<rparr>"

lemma oneWorker_reached:
  "psp_writeBlock exampleExternals (newPipeProcessor exampleExternals sortByN 1) 0
     (exampleBlock ''n'' [''10'', ''9'']) = Some oneWorker"
proof -
  have s: "stealBudget exampleExternals 0 (newPipeProcessor exampleExternals sortByN 1)
      = Some (True, newPipeProcessor exampleExternals sortByN 1)"
    by (rule stealBudget_enough[where shard = "\<lparr>ps = sortByN, blocks = [], rowRefs = [], rowRefNext = 0,
          stateSizeBudget = 1048576\<rparr>"])
       (simp_all add: newPipeProcessor_def exampleExternals_def at_def)
  show ?thesis
    unfolding psp_writeBlock_def s
    by (simp add: newPipeProcessor_def oneWorker_def exampleShard_def at_def exampleBlock_def
         exampleExternals_def)
qed

lemma less_10_9:
  "sortBlockLess_refs (keyedShard [''10'', ''9''] [10, 9] [Float 10, Float 9] refs nxt) \<lparr>blockIdx = 0, rowIdx = Suc 0\<rparr>
     (keyedShard [''10'', ''9''] [10, 9] [Float 10, Float 9] refs nxt) \<lparr>blockIdx = 0, rowIdx = 0\<rparr> = Some True"
  by (simp add: keyedShard_def sortBlockLess_refs_def sortBlockLess_key_def keyIsDesc_def
        at_def getI64ValueAtRow_def getF64ValueAtRow_def sortByN_def stringColumn_def word_sless_alt)

lemma sort_10_9:
  "sortShards exampleExternals (shards oneWorker) =
     Some [keyedShard [''10'', ''9''] [10, 9] [Float 10, Float 9]
       [\<lparr>blockIdx = 0, rowIdx = Suc 0\<rparr>, \<lparr>blockIdx = 0, rowIdx = 0\<rparr>] 0]"
  unfolding oneWorker_def exampleShard_10_9
  apply (simp add: sortShard_def exampleExternals_def)
  apply (simp add: keyedShard_def sortBlockLess_refs_def sortBlockLess_key_def keyIsDesc_def
        at_def getI64ValueAtRow_def getF64ValueAtRow_def sortByN_def stringColumn_def word_sless_alt)
  done

lemma mergeLoop_single:
  "length (m_sh st) \<le> 1 \<Longrightarrow> mergeLoop stopCh st = Some (False, st)"
  by (subst mergeLoop.simps) simp

lemma heap_Init_single: "heap_Init lt [x] = Some [x]"
  by (simp add: heap_Init_def)

lemma drain_10_9:
  "drainRows \<lparr>rcs = [], valuesLen = 0, written = []\<rparr>
     (keyedShard [''10'', ''9''] [10, 9] [Float 10, Float 9]
       [\<lparr>blockIdx = 0, rowIdx = Suc 0\<rparr>, \<lparr>blockIdx = 0, rowIdx = 0\<rparr>] 0) [0..<2] =
   Some \<lparr>rcs = [\<lparr>rc_name = ''n'', rc_values = [''9'', ''10'']\<rparr>], valuesLen = 3, written = []\<rparr>"
  by (simp add: upt_rec wctx_writeRow_def keyedShard_def at_def areEqualColumns_def sortByN_def
       wctx_flush_def addValue_def getValueAtRow_def stringColumn_def exampleBlock_def Let_def)

text \<open>
  The parts of \<open>flush\<close> after the local sorts: the shards that hold rows, the state at the
  start of the merge, and the loop over the rows of the last shard of the heap.
\<close>

definition mergeStart :: "'f pipeSortProcessorShard list \<Rightarrow> nat list \<Rightarrow> 'f mergeState" where
  "mergeStart ss sh =
     \<lparr>m_shards = ss, m_sh = sh, m_shardNext = None,
      m_wctx = \<lparr>rcs = [], valuesLen = 0, written = []\<rparr>, m_polls = 2\<rparr>"

definition drainLast :: "'f mergeState \<Rightarrow> pipeSortWriteContext option" where
  "drainLast st =
     (if length (m_sh st) = 1 then
        (case at (m_shards st) (m_sh st ! 0) of
           None \<Rightarrow> None
         | Some shard \<Rightarrow> drainRows (m_wctx st) shard [rowRefNext shard..<length (rowRefs shard)])
      else Some (m_wctx st))"

definition nonEmptyShards :: "'f pipeSortProcessorShard list \<Rightarrow> nat list" where
  "nonEmptyShards ss = filter (\<lambda>i. length (rowRefs (ss ! i)) > 0) [0..<length ss]"

lemma psp_flush_merged:
  assumes "psp_stateSizeBudget psp > 0" and "\<not> stopCh 0"
    and "sortShards ext (shards psp) = Some ss" and "\<not> stopCh 1"
    and "nonEmptyShards ss \<noteq> []"
    and "heap_Init (shardsLess ss) (nonEmptyShards ss) = Some sh1"
    and "mergeLoop stopCh (mergeStart ss sh1) = Some (cancelled, st)"
    and "\<not> cancelled \<Longrightarrow> drainLast st = Some wl"
  shows "psp_flush ext stopCh psp =
     Some (None, if cancelled then written (m_wctx st) else written (wctx_flush wl))"
proof (cases cancelled)
  case True
  then show ?thesis
    using assms(1-7)
    by (simp add: psp_flush_def nonEmptyShards_def mergeStart_def Let_def)
next
  case False
  then have "drainLast st = Some wl" by (rule assms(8))
  then show ?thesis
    using assms(1-7) False
    by (simp add: psp_flush_def nonEmptyShards_def mergeStart_def drainLast_def Let_def)
qed

lemma flush_10_9:
  "psp_flush exampleExternals (\<lambda>k. False) oneWorker =
     Some (None, [(0, [\<lparr>rc_name = ''n'', rc_values = [''9'', ''10'']\<rparr>])])"
proof -
  let ?s = "keyedShard [''10'', ''9''] [10, 9] [Float 10, Float 9]
       [\<lparr>blockIdx = 0, rowIdx = Suc 0\<rparr>, \<lparr>blockIdx = 0, rowIdx = 0\<rparr>] 0"
  let ?w = "\<lparr>rcs = [\<lparr>rc_name = ''n'', rc_values = [''9'', ''10'']\<rparr>], valuesLen = 3, written = []\<rparr>"
  have b: "psp_stateSizeBudget oneWorker > 0" by (simp add: oneWorker_def)
  have f: "nonEmptyShards [?s] = [0]"
    by (simp add: nonEmptyShards_def keyedShard_def)
  have h: "heap_Init (shardsLess [?s]) (nonEmptyShards [?s]) = Some [0]"
    unfolding f by (rule heap_Init_single)
  have m: "mergeLoop (\<lambda>k. False) (mergeStart [?s] [0]) = Some (False, mergeStart [?s] [0])"
    by (rule mergeLoop_single) (simp add: mergeStart_def)
  have r: "rowRefNext ?s = 0" "length (rowRefs ?s) = 2" by (simp_all add: keyedShard_def)
  have d: "drainLast (mergeStart [?s] [0]) = Some ?w"
    using drain_10_9 by (simp add: drainLast_def mergeStart_def at_def r)
  have "psp_flush exampleExternals (\<lambda>k. False) oneWorker =
     Some (None, if False then written (m_wctx (mergeStart [?s] [0])) else written (wctx_flush ?w))"
    by (rule psp_flush_merged[OF b _ sort_10_9 _ _ h m d]) (simp_all add: f)
  then show ?thesis by (simp add: wctx_flush_def resetKeepName_def)
qed

text \<open>
  Claim C7. Inside \<open>writeRow\<close> the batcher flushes at two points only: before the row is
  appended, exactly when the source block of the row has another column shape than the
  accumulator (another column count, or other names of \<open>otherColumns\<close>, in order), and
  after the row is appended, exactly when the bytes appended since the last flush reach
  1,000,000. The call returns the accumulator with the row appended to every column
  (emptied when the second flush took place). Besides these, \<open>flush\<close> of the processor
  flushes the batcher once more after the last row of a merge that was not cancelled,
  whatever the shape and the byte count are; a cancelled merge returns without this
  flush. What a flush writes is \<open>flushOutput\<close>: one block under worker id 0 holding the
  accumulated columns, named by the sort keys followed by the \<open>otherColumns\<close> of the
  source block of its rows, and nothing when the accumulator has no column yet.
\<close>

theorem batcher_flush_points:
  assumes "at (rowRefs shard) i = Some rr" and "at (blocks shard) (blockIdx rr) = Some b"
    and "length (byFields (ps shard)) \<le> length (byColumns b)"
    and "map rc_name (take (length (byFields (ps shard))) (rcs wctx)) =
         map bf_name (take (length (rcs wctx)) (byFields (ps shard)))"
  defines "bfs \<equiv> byFields (ps shard)"
  defines "differs \<equiv> \<not> areEqualColumns (rcs wctx) bfs (otherColumns b)"
  defines "acc \<equiv> (if differs then emptyColumns (rowNames bfs b) else rcs wctx)"
  defines "acc2 \<equiv> map (\<lambda>(rc, v). addValue rc v) (zip acc (rowValues bfs b rr))"
  defines "len2 \<equiv> (if differs then 0 else valuesLen wctx) + int (length (concat (rowValues bfs b rr)))"
  shows "(differs \<longleftrightarrow>
            length (rcs wctx) \<noteq> length bfs + length (otherColumns b) \<or>
            map rc_name (drop (length bfs) (rcs wctx)) \<noteq> map name (otherColumns b)) \<and>
         wctx_writeRow wctx shard i =
           Some \<lparr>rcs = (if len2 \<ge> 1000000 then map resetKeepName acc2 else acc2),
                 valuesLen = (if len2 \<ge> 1000000 then 0 else len2),
                 written = written wctx @ (if differs then flushOutput (rcs wctx) else []) @
                           (if len2 \<ge> 1000000 then flushOutput acc2 else [])\<rparr> \<and>
         map rc_name acc2 = map bf_name bfs @ map name (otherColumns b) \<and>
         map rc_values acc2 =
           map (\<lambda>(vs, v). vs @ [v]) (zip (map rc_values acc) (rowValues bfs b rr)) \<and>
         map fst (flushOutput (rcs wctx) @ flushOutput acc2 @ flushOutput (rcs wl)) =
           replicate (length (flushOutput (rcs wctx) @ flushOutput acc2 @ flushOutput (rcs wl))) 0 \<and>
         (0 < psp_stateSizeBudget psp \<and> \<not> stopCh 0 \<and> sortShards ext (shards psp) = Some ss \<and>
          \<not> stopCh 1 \<and> nonEmptyShards ss \<noteq> [] \<and>
          heap_Init (shardsLess ss) (nonEmptyShards ss) = Some sh1 \<and>
          mergeLoop stopCh (mergeStart ss sh1) = Some (cancelled, st) \<and>
          (\<not> cancelled \<longrightarrow> drainLast st = Some wl)
          \<longrightarrow> psp_flush ext stopCh psp =
                Some (None, if cancelled then written (m_wctx st)
                            else written wl @ flushOutput (rcs wl)))"
proof -
  have 1: "differs \<longleftrightarrow>
            length (rcs wctx) \<noteq> length bfs + length (otherColumns b) \<or>
            map rc_name (drop (length bfs) (rcs wctx)) \<noteq> map name (otherColumns b)"
    using areEqualColumns_iff[of "rcs wctx" bfs "otherColumns b"] by (auto simp: differs_def)
  have 2: "wctx_writeRow wctx shard i =
           Some \<lparr>rcs = (if len2 \<ge> 1000000 then map resetKeepName acc2 else acc2),
                 valuesLen = (if len2 \<ge> 1000000 then 0 else len2),
                 written = written wctx @ (if differs then flushOutput (rcs wctx) else []) @
                           (if len2 \<ge> 1000000 then flushOutput acc2 else [])\<rparr>"
    and 3: "map rc_name acc2 = rowNames bfs b"
    and 4: "map rc_values acc2 =
           map (\<lambda>(vs, v). vs @ [v]) (zip (map rc_values acc) (rowValues bfs b rr))"
    using wctx_writeRow_exact[OF assms(1,2,3,4)]
    unfolding bfs_def differs_def acc_def acc2_def len2_def by blast+
  have 5: "0 < psp_stateSizeBudget psp \<and> \<not> stopCh 0 \<and> sortShards ext (shards psp) = Some ss \<and>
          \<not> stopCh 1 \<and> nonEmptyShards ss \<noteq> [] \<and>
          heap_Init (shardsLess ss) (nonEmptyShards ss) = Some sh1 \<and>
          mergeLoop stopCh (mergeStart ss sh1) = Some (cancelled, st) \<and>
          (\<not> cancelled \<longrightarrow> drainLast st = Some wl)
          \<longrightarrow> psp_flush ext stopCh psp =
                Some (None, if cancelled then written (m_wctx st)
                            else written wl @ flushOutput (rcs wl))"
  proof
    assume h: "0 < psp_stateSizeBudget psp \<and> \<not> stopCh 0 \<and> sortShards ext (shards psp) = Some ss \<and>
          \<not> stopCh 1 \<and> nonEmptyShards ss \<noteq> [] \<and>
          heap_Init (shardsLess ss) (nonEmptyShards ss) = Some sh1 \<and>
          mergeLoop stopCh (mergeStart ss sh1) = Some (cancelled, st) \<and>
          (\<not> cancelled \<longrightarrow> drainLast st = Some wl)"
    have "psp_flush ext stopCh psp =
       Some (None, if cancelled then written (m_wctx st) else written (wctx_flush wl))"
      by (rule psp_flush_merged[where ss = ss and ?sh1.0 = sh1]) (use h in simp_all)
    then show "psp_flush ext stopCh psp =
                Some (None, if cancelled then written (m_wctx st)
                            else written wl @ flushOutput (rcs wl))"
      by (simp add: wctx_flush_written)
  qed
  have 6: "map fst (flushOutput (rcs wctx) @ flushOutput acc2 @ flushOutput (rcs wl)) =
           replicate (length (flushOutput (rcs wctx) @ flushOutput acc2 @ flushOutput (rcs wl))) 0"
    by (simp add: flushOutput_def)
  show ?thesis using 1 2 3 4 5 6 unfolding rowNames_def by blast
qed

theorem batcher_flush_points_witness:
  "wctx_writeRow \<lparr>rcs = [], valuesLen = 0, written = []\<rparr>
     (keyedShard [''10'', ''9''] [10, 9] [Float 10, Float 9]
        [\<lparr>blockIdx = 0, rowIdx = Suc 0\<rparr>, \<lparr>blockIdx = 0, rowIdx = 0\<rparr>] 0) 0 =
     Some \<lparr>rcs = [\<lparr>rc_name = ''n'', rc_values = [''9'']\<rparr>], valuesLen = 1, written = []\<rparr> \<and>
   psp_flush exampleExternals (\<lambda>k. False) oneWorker =
     Some (None, [(0, [\<lparr>rc_name = ''n'', rc_values = [''9'', ''10'']\<rparr>])])"
proof -
  let ?s = "keyedShard [''10'', ''9''] [10, 9] [Float 10, Float 9]
       [\<lparr>blockIdx = 0, rowIdx = Suc 0\<rparr>, \<lparr>blockIdx = 0, rowIdx = 0\<rparr>] 0"
  let ?b = "\<lparr>br = exampleBlock ''n'' [''10'', ''9''],
             byColumns = [\<lparr>col = stringColumn ''n'' [''10'', ''9''],
                           i64Values = [10, 9], f64Values = [Float (10::int), Float 9]\<rparr>],
             otherColumns = []\<rparr>"
  let ?emp = "\<lparr>rcs = [], valuesLen = 0, written = []\<rparr>"
  let ?w = "\<lparr>rcs = [\<lparr>rc_name = ''n'', rc_values = [''9'', ''10'']\<rparr>], valuesLen = 3, written = []\<rparr>"
  have a: "at (rowRefs ?s) 0 = Some \<lparr>blockIdx = 0, rowIdx = Suc 0\<rparr>"
    by (simp add: keyedShard_def at_def)
  have b: "at (blocks ?s) (blockIdx \<lparr>blockIdx = 0, rowIdx = Suc 0\<rparr>) = Some ?b"
    by (simp add: keyedShard_def at_def)
  have c: "length (byFields (ps ?s)) \<le> length (byColumns ?b)"
    by (simp add: keyedShard_def sortByN_def)
  have d: "map rc_name (take (length (byFields (ps ?s))) (rcs ?emp)) =
         map bf_name (take (length (rcs ?emp)) (byFields (ps ?s)))"
    by simp
  have p: "psp_stateSizeBudget oneWorker > 0" by (simp add: oneWorker_def)
  have f: "nonEmptyShards [?s] = [0]"
    by (simp add: nonEmptyShards_def keyedShard_def)
  have h: "heap_Init (shardsLess [?s]) (nonEmptyShards [?s]) = Some [0]"
    unfolding f by (rule heap_Init_single)
  have m: "mergeLoop (\<lambda>k. False) (mergeStart [?s] [0]) = Some (False, mergeStart [?s] [0])"
    by (rule mergeLoop_single) (simp add: mergeStart_def)
  have r: "rowRefNext ?s = 0" "length (rowRefs ?s) = 2" by (simp_all add: keyedShard_def)
  have dl: "drainLast (mergeStart [?s] [0]) = Some ?w"
    using drain_10_9 by (simp add: drainLast_def mergeStart_def at_def r)
  note T = batcher_flush_points[OF a b c d, where psp = oneWorker and stopCh = "\<lambda>k. False"
      and ext = exampleExternals and ss = "[?s]" and ?sh1.0 = "[0]" and cancelled = False
      and st = "mergeStart [?s] [0]" and wl = ?w]
  have 1: "wctx_writeRow ?emp ?s 0 =
     Some \<lparr>rcs = [\<lparr>rc_name = ''n'', rc_values = [''9'']\<rparr>], valuesLen = 1, written = []\<rparr>"
    using T
    by (simp add: keyedShard_def sortByN_def areEqualColumns_def flushOutput_def emptyColumns_def
        rowNames_def rowValues_def addValue_def stringColumn_def getValueAtRow_def)
  have 2: "psp_flush exampleExternals (\<lambda>k. False) oneWorker =
            Some (None, written ?w @ flushOutput (rcs ?w))"
    using T p sort_10_9 f h m dl by simp
  show ?thesis using 1 2 by (simp add: flushOutput_def)
qed

text \<open>
  The block of the rows \<open>"10"\<close>, \<open>"9"\<close> is ingested by one worker. After the two calls
  of \<open>writeRow\<close> nothing has been written: the shape did not change after the first row
  and 3 bytes were appended. The block that \<open>flush\<close> writes comes from the call of the
  batcher's flush at its end.
\<close>

theorem final_flush_counterexample:
  "psp_writeBlock exampleExternals (newPipeProcessor exampleExternals sortByN 1) 0
     (exampleBlock ''n'' [''10'', ''9'']) = Some oneWorker \<and>
   sortShards exampleExternals (shards oneWorker) =
     Some [keyedShard [''10'', ''9''] [10, 9] [Float 10, Float 9]
             [\<lparr>blockIdx = 0, rowIdx = Suc 0\<rparr>, \<lparr>blockIdx = 0, rowIdx = 0\<rparr>] 0] \<and>
   drainRows \<lparr>rcs = [], valuesLen = 0, written = []\<rparr>
     (keyedShard [''10'', ''9''] [10, 9] [Float 10, Float 9]
        [\<lparr>blockIdx = 0, rowIdx = Suc 0\<rparr>, \<lparr>blockIdx = 0, rowIdx = 0\<rparr>] 0) [0..<2] =
     Some \<lparr>rcs = [\<lparr>rc_name = ''n'', rc_values = [''9'', ''10'']\<rparr>], valuesLen = 3, written = []\<rparr> \<and>
   psp_flush exampleExternals (\<lambda>k. False) oneWorker =
     Some (None, [(0, [\<lparr>rc_name = ''n'', rc_values = [''9'', ''10'']\<rparr>])])"
  using oneWorker_reached sort_10_9 drain_10_9 flush_10_9 by simp

section \<open>Claims about the value tiers\<close>

text \<open>
  What the merge asks of \<open>sort.Sort\<close>, which is not part of \<open>pipe_sort.go\<close>: called with
  a comparator that answers on all the elements, it returns a permutation of them, and a
  sorted one (no element is less than an earlier one) when the comparator is a strict weak
  order on them: asymmetric, with a transitive "not less". The insertion sort of the
  examples is one such sort.
\<close>

definition strictWeakOn :: "('a \<Rightarrow> 'a \<Rightarrow> bool option) \<Rightarrow> 'a set \<Rightarrow> bool" where
  "strictWeakOn lt A \<longleftrightarrow>
     (\<forall>a\<in>A. \<forall>b\<in>A. lt a b \<noteq> None) \<and>
     (\<forall>a\<in>A. \<forall>b\<in>A. \<not> (lt a b = Some True \<and> lt b a = Some True)) \<and>
     (\<forall>a\<in>A. \<forall>b\<in>A. \<forall>c\<in>A. lt b a = Some False \<and> lt c b = Some False \<longrightarrow> lt c a = Some False)"







lemma swo_subset: "strictWeakOn lt A \<Longrightarrow> B \<subseteq> A \<Longrightarrow> strictWeakOn lt B"
  unfolding strictWeakOn_def by blast







abbreviation "ref0 \<equiv> \<lparr>blockIdx = 0, rowIdx = 0\<rparr>"
abbreviation "ref1 \<equiv> \<lparr>blockIdx = 0, rowIdx = Suc 0\<rparr>"
abbreviation "ref2 \<equiv> \<lparr>blockIdx = 0, rowIdx = 2\<rparr>"













end
